theory Spec2Isabelle
  imports
    Complex_Main
    "HOL-Library.Word"
    "HOL-Library.Monad_Syntax"
    "HOL-Library.Numeral_Type"
    "HOL-Library.Log_Nat"
begin

section \<open>Bulletproofs range proofs of \<^verbatim>\<open>zkrangeproof/bulletproofs.go\<close>\<close>

text \<open>
  The file \<^verbatim>\<open>bulletproofs.go\<close> implements the range proof (type \<^verbatim>\<open>bp\<close>) and the
  inner-product argument (type \<^verbatim>\<open>bip\<close>). It is written against an elliptic-curve type
  \<^verbatim>\<open>p256\<close>, the constant \<^verbatim>\<open>CURVE.N\<close>, SHA-256, the random source and a few
  big-integer wrappers that live in other files. The curve, the hash and the constant are
  parameters of the model; the wrappers are modelled by the arithmetic they name.
\<close>

subsection \<open>Outcomes of a call\<close>

text \<open>
  A Go function either returns or panics (index out of range, slice bounds out of range,
  \<^verbatim>\<open>make\<close> with a negative length, nil dereference). A call that may panic has a
  result of type \<open>'a run\<close>: \<open>None\<close> is the panic, \<open>Some v\<close> the returned value.
  A Go result pair \<^verbatim>\<open>(v, err)\<close> is a sum: \<open>Inl msg\<close> is \<^verbatim>\<open>(nil, errors.New(msg))\<close>
  and \<open>Inr v\<close> is \<^verbatim>\<open>(v, nil)\<close>.

  The source discards most errors (\<^verbatim>\<open>x, _ := f()\<close>). After a discarded error a slice
  is the nil slice, which Go treats as the empty slice (\<open>slice_of\<close>), and a pointer is
  nil. Every pointer obtained this way is dereferenced before the enclosing function
  returns, which panics; \<open>must\<close> places that panic at the call.
\<close>

type_synonym 'a run = "'a option"

definition slice_of :: "string + 'a list \<Rightarrow> 'a list" where
  "slice_of r = (case r of Inl _ \<Rightarrow> [] | Inr xs \<Rightarrow> xs)"

definition must :: "string + 'a \<Rightarrow> 'a run" where
  "must r = (case r of Inl _ \<Rightarrow> None | Inr v \<Rightarrow> Some v)"

text \<open>
  Slice expressions \<^verbatim>\<open>a[:k]\<close> and \<^verbatim>\<open>a[k:]\<close>. Every slice of the file is made by
  \<^verbatim>\<open>make\<close> with its length as capacity, so the bounds are checked against the length.
\<close>

definition slice_to :: "'a list \<Rightarrow> int \<Rightarrow> 'a list run" where
  "slice_to a k = (if 0 \<le> k \<and> k \<le> int (length a) then Some (take (nat k) a) else None)"

definition slice_from :: "'a list \<Rightarrow> int \<Rightarrow> 'a list run" where
  "slice_from a k = (if 0 \<le> k \<and> k \<le> int (length a) then Some (drop (nat k) a) else None)"

text \<open>An index expression \<^verbatim>\<open>a[i]\<close>.\<close>

definition index :: "'a list \<Rightarrow> int \<Rightarrow> 'a run" where
  "index a i = (if 0 \<le> i \<and> i < int (length a) then Some (a ! nat i) else None)"

text \<open>Division of \<^verbatim>\<open>int64\<close> values truncates towards zero.\<close>

definition quo :: "int \<Rightarrow> int \<Rightarrow> int" where
  "quo a b = sgn a * sgn b * (\<bar>a\<bar> div \<bar>b\<bar>)"

subsection \<open>The curve, the hash and the big-integer helpers\<close>

type_synonym byte = "8 word"

text \<open>
  The methods of \<^verbatim>\<open>p256\<close> the file calls, \<^verbatim>\<open>CURVE.N\<close>, \<^verbatim>\<open>MapToGroup\<close> and
  \<^verbatim>\<open>sha256\<close>. A method such as \<^verbatim>\<open>p.Multiply(a, b)\<close> stores the product in its receiver
  \<open>p\<close> and returns \<open>p\<close>, as the methods of \<^verbatim>\<open>math/big\<close> do: the source relies on it in
  \<^verbatim>\<open>result.Multiply(result, ...)\<close> (VectorExp) and \<^verbatim>\<open>lhs.Neg(lhs)\<close> (Verify). The fields
  below give the value stored; where the receiver is shared, the store is explicit (see
  the inner-product argument).
\<close>

record 'p curve =
  ORDER :: int
  p256_ScalarBaseMult :: "int \<Rightarrow> 'p"
  p256_ScalarMult :: "'p \<Rightarrow> int \<Rightarrow> 'p"
  p256_Multiply :: "'p \<Rightarrow> 'p \<Rightarrow> 'p"
  p256_Neg :: "'p \<Rightarrow> 'p"
  p256_SetInfinity :: "'p"
  p256_IsZero :: "'p \<Rightarrow> bool"
  p256_String :: "'p \<Rightarrow> string"
  MapToGroup :: "string \<Rightarrow> 'p"
  sha256 :: "string \<Rightarrow> byte list"

definition SEEDH :: string where
  "SEEDH = ''BulletproofsDoesNotNeedTrustedSetupH''"

definition SEEDU :: string where
  "SEEDU = ''BulletproofsDoesNotNeedTrustedSetupU''"

text \<open>
  Modelled from the spec: the wrappers \<^verbatim>\<open>Add\<close>, \<^verbatim>\<open>Sub\<close>, \<^verbatim>\<open>Multiply\<close>, \<^verbatim>\<open>Mod\<close> over
  \<^verbatim>\<open>big.Int\<close> are not in the file; "all scalar arithmetic is reduced modulo q" by calls
  of \<^verbatim>\<open>Mod(x, ORDER)\<close>. \<^verbatim>\<open>big.Int.Mod\<close> is the Euclidean modulus, which is \<open>mod\<close> for
  a positive modulus such as the order of the curve.
\<close>

abbreviation Add :: "int \<Rightarrow> int \<Rightarrow> int" where
  "Add a b \<equiv> a + b"

abbreviation Sub :: "int \<Rightarrow> int \<Rightarrow> int" where
  "Sub a b \<equiv> a - b"

abbreviation Multiply :: "int \<Rightarrow> int \<Rightarrow> int" where
  "Multiply a b \<equiv> a * b"

abbreviation Mod :: "int \<Rightarrow> int \<Rightarrow> int" where
  "Mod a m \<equiv> a mod m"

text \<open>
  Modelled from the spec: \<^verbatim>\<open>ModInverse\<close> is not in the file; the spec calls its result
  the "modular inverse". It is the inverse in \<open>[0, m)\<close>, and nil when there is none, as
  \<^verbatim>\<open>big.Int.ModInverse\<close> returns it.
\<close>

definition ModInverse :: "int \<Rightarrow> int \<Rightarrow> int option" where
  "ModInverse g m = List.find (\<lambda>y. (g * y) mod m = 1 mod m) (map int [0..<nat m])"

text \<open>
  Modelled from the spec: \<^verbatim>\<open>byteconversion.FromByteArray\<close> is not in the file; the
  digest is "interpreted big-endian as an unsigned integer", and a digest that fails to
  parse "should be impossible for SHA-256".
\<close>

definition FromByteArray :: "byte list \<Rightarrow> string + int" where
  "FromByteArray bs = Inr (foldl (\<lambda>acc b. acc * 256 + uint b) 0 bs)"

text \<open>
  Modelled from the spec: \<^verbatim>\<open>CommitG1\<close> is not in the file; it is the Pedersen
  commitment \<open>G^x \<cdot> h^r\<close> on the base point \<open>G\<close>.
\<close>

definition CommitG1 :: "'p curve \<Rightarrow> int \<Rightarrow> int \<Rightarrow> 'p \<Rightarrow> 'p" where
  "CommitG1 e x r h = p256_Multiply e (p256_ScalarBaseMult e x) (p256_ScalarMult e h r)"

text \<open>
  Modelled from the spec: \<^verbatim>\<open>Decompose\<close> is not in the file; it returns the little-endian
  decomposition of \<open>x\<close> in base \<open>u\<close> into \<open>l\<close> digits, and "OutOfRange" is "raised by
  bit-decomposition" when \<open>x\<close> is outside \<open>[0, u^l)\<close>.
\<close>

definition Decompose :: "int \<Rightarrow> int \<Rightarrow> int \<Rightarrow> string + int list" where
  "Decompose x u l =
     (if 0 \<le> x \<and> x < u ^ nat l
      then Inr (map (\<lambda>i. (x div u ^ i) mod u) [0..<nat l])
      else Inl ''OutOfRange'')"

text \<open>The decimal text of a \<^verbatim>\<open>big.Int\<close> (\<^verbatim>\<open>c.String()\<close>).\<close>

fun decimal :: "nat \<Rightarrow> string" where
  "decimal n = (if n < 10 then [char_of (48 + n)] else decimal (n div 10) @ [char_of (48 + n mod 10)])"

definition big_String :: "int \<Rightarrow> string" where
  "big_String c = (if c < 0 then CHR ''-'' # decimal (nat (- c)) else decimal (nat c))"

subsection \<open>Vector helpers\<close>

definition errSize :: string where
  "errSize = ''Size of first argument is different from size of second argument.''"

definition VectorCopy :: "'a \<Rightarrow> int \<Rightarrow> 'a list run" where
  "VectorCopy a n = (if n < 0 then None else Some (replicate (nat n) a))"

definition VectorConvertToBig :: "int list \<Rightarrow> int \<Rightarrow> int list run" where
  "VectorConvertToBig a n =
     (if n < 0 \<or> int (length a) < n then None else Some (take (nat n) a))"

definition VectorAdd :: "'p curve \<Rightarrow> int list \<Rightarrow> int list \<Rightarrow> string + int list" where
  "VectorAdd e a b =
     (if length a \<noteq> length b then Inl errSize
      else Inr (map2 (\<lambda>x y. Mod (Add x y) (ORDER e)) a b))"

definition VectorSub :: "'p curve \<Rightarrow> int list \<Rightarrow> int list \<Rightarrow> string + int list" where
  "VectorSub e a b =
     (if length a \<noteq> length b then Inl errSize
      else Inr (map2 (\<lambda>x y. Mod (Sub x y) (ORDER e)) a b))"

definition VectorScalarMul :: "'p curve \<Rightarrow> int list \<Rightarrow> int \<Rightarrow> int list" where
  "VectorScalarMul e a b = map (\<lambda>x. Mod (Multiply x b) (ORDER e)) a"

definition VectorMul :: "'p curve \<Rightarrow> int list \<Rightarrow> int list \<Rightarrow> string + int list" where
  "VectorMul e a b =
     (if length a \<noteq> length b then Inl errSize
      else Inr (map2 (\<lambda>x y. Mod (Multiply x y) (ORDER e)) a b))"

definition VectorECAdd :: "'p curve \<Rightarrow> 'p list \<Rightarrow> 'p list \<Rightarrow> string + 'p list" where
  "VectorECAdd e a b =
     (if length a \<noteq> length b then Inl errSize
      else Inr (map2 (p256_Multiply e) a b))"

definition ScalarProduct :: "'p curve \<Rightarrow> int list \<Rightarrow> int list \<Rightarrow> string + int" where
  "ScalarProduct e a b =
     (if length a \<noteq> length b then Inl errSize
      else Inr (foldl (\<lambda>result (x, y). Mod (Add result (Multiply x y)) (ORDER e)) 0 (zip a b)))"

definition VectorExp :: "'p curve \<Rightarrow> 'p list \<Rightarrow> int list \<Rightarrow> string + 'p" where
  "VectorExp e a b =
     (if length a \<noteq> length b then Inl errSize
      else Inr (foldl (\<lambda>result (x, y). p256_Multiply e result (p256_ScalarMult e x y))
                  (p256_SetInfinity e) (zip a b)))"

definition VectorScalarExp :: "'p curve \<Rightarrow> 'p list \<Rightarrow> int \<Rightarrow> 'p list" where
  "VectorScalarExp e a b = map (\<lambda>x. p256_ScalarMult e x b) a"

text \<open>The loop of \<^verbatim>\<open>PowerOf\<close>: \<open>current\<close> starts at 1 and is reduced after each product.\<close>

fun PowerOf_loop :: "'p curve \<Rightarrow> int \<Rightarrow> int \<Rightarrow> nat \<Rightarrow> int list" where
  "PowerOf_loop e x current 0 = []"
| "PowerOf_loop e x current (Suc k) =
     current # PowerOf_loop e x (Mod (Multiply current x) (ORDER e)) k"

definition PowerOf :: "'p curve \<Rightarrow> int \<Rightarrow> int \<Rightarrow> int list run" where
  "PowerOf e x n = (if n < 0 then None else Some (PowerOf_loop e x 1 (nat n)))"

fun ComputeAR :: "int list \<Rightarrow> string + int list" where
  "ComputeAR [] = Inr []"
| "ComputeAR (x # xs) =
     (if x = 0 then map_sum id ((#) (-1)) (ComputeAR xs)
      else if x = 1 then map_sum id ((#) 0) (ComputeAR xs)
      else Inl ''input contains non-binary element'')"

subsection \<open>Fiat-Shamir hash of two points\<close>

definition HashBP :: "'p curve \<Rightarrow> 'p \<Rightarrow> 'p \<Rightarrow> string + (int \<times> int)" where
  "HashBP e A S =
     (let output1 = sha256 e (p256_String e A @ p256_String e S);
          r1 = FromByteArray output1;
          output2 = sha256 e (p256_String e S @ p256_String e A);
          r2 = FromByteArray output2
      in case r1 of
           Inl err1 \<Rightarrow> Inl err1
         | Inr result1 \<Rightarrow>
             (case r2 of Inl err2 \<Rightarrow> Inl err2 | Inr result2 \<Rightarrow> Inr (result1, result2)))"

subsection \<open>Commitments to vectors\<close>

text \<open>
  \<^verbatim>\<open>CommitVector\<close> and \<^verbatim>\<open>CommitVectorBig\<close> run the same loop, the first on \<^verbatim>\<open>int64\<close>
  digits converted by \<^verbatim>\<open>SetInt64\<close>. Each round reads \<open>g[i]\<close>, \<open>aL[i]\<close>, \<open>h[i]\<close>, \<open>aR[i]\<close>.
\<close>

fun CommitVector_loop :: "'p curve \<Rightarrow> 'p \<Rightarrow> int list \<Rightarrow> int list \<Rightarrow> 'p list \<Rightarrow> 'p list \<Rightarrow> int \<Rightarrow> nat \<Rightarrow> 'p run" where
  "CommitVector_loop e R aL aR g h i 0 = Some R"
| "CommitVector_loop e R aL aR g h i (Suc k) = do {
     gi \<leftarrow> index g i;
     ali \<leftarrow> index aL i;
     hi \<leftarrow> index h i;
     ari \<leftarrow> index aR i;
     CommitVector_loop e
       (p256_Multiply e (p256_Multiply e R (p256_ScalarMult e gi ali)) (p256_ScalarMult e hi ari))
       aL aR g h (i + 1) k
   }"

definition CommitVector :: "'p curve \<Rightarrow> int list \<Rightarrow> int list \<Rightarrow> int \<Rightarrow> 'p \<Rightarrow> 'p \<Rightarrow> 'p list \<Rightarrow> 'p list \<Rightarrow> int \<Rightarrow> 'p run" where
  "CommitVector e aL aR alpha G H g h n =
     CommitVector_loop e (p256_ScalarMult e H alpha) aL aR g h 0 (nat n)"

definition CommitVectorBig :: "'p curve \<Rightarrow> int list \<Rightarrow> int list \<Rightarrow> int \<Rightarrow> 'p \<Rightarrow> 'p \<Rightarrow> 'p list \<Rightarrow> 'p list \<Rightarrow> int \<Rightarrow> 'p run" where
  "CommitVectorBig e aL aR alpha G H g h n =
     CommitVector_loop e (p256_ScalarMult e H alpha) aL aR g h 0 (nat n)"


subsection \<open>The state: parameters, proofs and the store of shared points\<close>

text \<open>
  Points are values wherever the file only reads them. The one point it overwrites
  through a shared pointer is the commitment \<open>P\<close> of the inner-product argument:
  \<^verbatim>\<open>bip.Prove\<close> multiplies into its argument \<open>P\<close> and stores the pointer in \<^verbatim>\<open>zkip.P\<close>,
  and \<^verbatim>\<open>bip.Verify\<close> multiplies into \<^verbatim>\<open>zkip.P\<close>. These points live in a store, a list
  indexed by address; \<^verbatim>\<open>zkip.P\<close> is an address, or \<open>None\<close> for the nil pointer of a
  \<^verbatim>\<open>bip\<close> that has not proved yet. The other pointer fields of \<^verbatim>\<open>bip\<close> are as
  \<^verbatim>\<open>bip.Setup\<close> leaves them, set and never overwritten in place.
\<close>

type_synonym 'p heap = "'p list"

definition deref :: "'p heap \<Rightarrow> nat \<Rightarrow> 'p run" where
  "deref hp p = (if p < length hp then Some (hp ! p) else None)"

record 'p bip =
  bip_n :: int
  bip_c :: int
  bip_u :: 'p
  bip_H :: 'p
  bip_g :: "'p list"
  bip_h :: "'p list"
  bip_P :: "nat option"

text \<open>
  The fields of a proof are values: \<^verbatim>\<open>proofBip.P\<close> is the point at the time \<^verbatim>\<open>BIP\<close>
  returns, and no function of the file reads it afterwards.
\<close>

record 'p proofBip =
  pip_Ls :: "'p list"
  pip_Rs :: "'p list"
  pip_u :: 'p
  pip_P :: 'p
  pip_g :: 'p
  pip_h :: 'p
  pip_a :: int
  pip_b :: int
  pip_n :: int

record 'p bp =
  bp_n :: int
  bp_G :: 'p
  bp_H :: 'p
  bp_g :: "'p list"
  bp_h :: "'p list"
  bp_zkip :: "'p bip"

text \<open>
  \<^verbatim>\<open>proofBP.proofip\<close> is \<open>None\<close> for the zero \<^verbatim>\<open>proofBip\<close> that \<^verbatim>\<open>bp.Prove\<close> is left
  with when it discards an error of \<^verbatim>\<open>bip.Prove\<close>.
\<close>

record 'p proofBP =
  pf_V :: 'p
  pf_A :: 'p
  pf_S :: 'p
  pf_T1 :: 'p
  pf_T2 :: 'p
  pf_taux :: int
  pf_mu :: int
  pf_tprime :: int
  pf_proofip :: "'p proofBip option"

subsection \<open>The range proof: Delta and Setup\<close>

definition Delta :: "'p curve \<Rightarrow> 'p bp \<Rightarrow> int \<Rightarrow> int \<Rightarrow> int run" where
  "Delta e zkrp y z = do {
     let z2 = Mod (Multiply z z) (ORDER e);
     let z3 = Mod (Multiply z2 z) (ORDER e);
     v1 \<leftarrow> VectorCopy 1 (bp_n zkrp);
     vy \<leftarrow> PowerOf e y (bp_n zkrp);
     sp1y \<leftarrow> must (ScalarProduct e v1 vy);
     p2n \<leftarrow> PowerOf e 2 (bp_n zkrp);
     sp12 \<leftarrow> must (ScalarProduct e v1 p2n);
     Some (Mod (Sub (Multiply (Sub z z2) sp1y) (Multiply z3 sp12)) (ORDER e))
   }"

text \<open>
  \<^verbatim>\<open>int64(math.Log2(float64(b)))\<close>: the conversion to \<^verbatim>\<open>int64\<close> truncates. For
  \<open>1 \<le> b \<le> 2^32\<close> the conversion to \<^verbatim>\<open>float64\<close> is exact, \<^verbatim>\<open>math.Log2\<close> is exact on
  powers of two and elsewhere closer to the logarithm than to the next integer, so the
  result is the integer part of the binary logarithm, \<open>floorlog 2 b - 1\<close>. The definition
  is meant for this range only: for larger \<open>b\<close> just below a power of two the float
  logarithm rounds up to the next integer (the code gives 49 at \<open>b = 2^49 - 1\<close>), which the
  definition does not follow. For \<open>b \<le> 0\<close> the logarithm is \<open>-Inf\<close> or \<open>NaN\<close> and its
  conversion depends on the platform; the model has no result there.
\<close>

definition Log2_int64 :: "int \<Rightarrow> int run" where
  "Log2_int64 b = (if 1 \<le> b then Some (int (floorlog 2 (nat b)) - 1) else None)"

definition bip_Setup :: "'p curve \<Rightarrow> 'p bip \<Rightarrow> 'p \<Rightarrow> 'p list \<Rightarrow> 'p list \<Rightarrow> int \<Rightarrow> 'p bip run" where
  "bip_Setup e zkip H g h c =
     (if bip_n zkip < 0 then None
      else Some (zkip\<lparr>bip_u := MapToGroup e SEEDU, bip_H := H, bip_g := g, bip_h := h, bip_c := c\<rparr>))"

text \<open>
  The random source: \<open>rnd k\<close> is the result of the \<open>k\<close>-th call of
  \<^verbatim>\<open>rand.Int(rand.Reader, ORDER)\<close> within the method, counted from 0.
\<close>

definition bp_Setup :: "'p curve \<Rightarrow> (nat \<Rightarrow> int) \<Rightarrow> 'p bp \<Rightarrow> int \<Rightarrow> int \<Rightarrow> 'p bp run" where
  "bp_Setup e rnd zkrp a b = do {
     let G = p256_ScalarBaseMult e 1;
     let H = MapToGroup e SEEDH;
     n \<leftarrow> Log2_int64 b;
     let g = map (\<lambda>i. p256_ScalarBaseMult e (rnd (2 * i))) [0..<nat n];
     let h = map (\<lambda>i. p256_ScalarMult e H (rnd (2 * i + 1))) [0..<nat n];
     zkip \<leftarrow> bip_Setup e (bp_zkip zkrp) H g h 0;
     Some (zkrp\<lparr>bp_n := n, bp_G := G, bp_H := H, bp_g := g, bp_h := h, bp_zkip := zkip\<rparr>)
   }"

subsection \<open>The inner-product argument\<close>

definition HashIP :: "'p curve \<Rightarrow> 'p list \<Rightarrow> 'p list \<Rightarrow> 'p \<Rightarrow> int \<Rightarrow> int \<Rightarrow> (string + int) run" where
  "HashIP e g h P c n =
     (if n \<le> int (length g) \<and> n \<le> int (length h)
      then Some (FromByteArray (sha256 e
             (p256_String e P
              @ concat (map2 (\<lambda>gi hi. p256_String e gi @ p256_String e hi)
                          (take (nat n) g) (take (nat n) h))
              @ big_String c)))
      else None)"

definition CommitInnerProduct :: "'p curve \<Rightarrow> 'p list \<Rightarrow> 'p list \<Rightarrow> int list \<Rightarrow> int list \<Rightarrow> 'p run" where
  "CommitInnerProduct e g h a b = do {
     ga \<leftarrow> must (VectorExp e g a);
     hb \<leftarrow> must (VectorExp e h b);
     Some (p256_Multiply e ga hb)
   }"

text \<open>
  One round of the recursive branch of \<^verbatim>\<open>BIP\<close> (lines 825 to 873): the arguments of the
  recursive call. A nil \<open>xinv\<close> implies a nil \<open>x2inv\<close> (\<open>ModInverse_square\<close> below), and
  \<open>x2inv\<close> is always used, so both are required here.
\<close>

definition BIP_round ::
  "'p curve \<Rightarrow> int list \<Rightarrow> int list \<Rightarrow> 'p list \<Rightarrow> 'p list \<Rightarrow> 'p \<Rightarrow> 'p \<Rightarrow> int \<Rightarrow> 'p list \<Rightarrow> 'p list
   \<Rightarrow> (int list \<times> int list \<times> 'p list \<times> 'p list \<times> 'p \<times> int \<times> 'p list \<times> 'p list) run" where
  "BIP_round e a b g h u P n Ls Rs = do {
     let nprime = quo n 2;
     a_lo \<leftarrow> slice_to a nprime;
     b_hi \<leftarrow> slice_from b nprime;
     cL \<leftarrow> must (ScalarProduct e a_lo b_hi);
     a_hi \<leftarrow> slice_from a nprime;
     b_lo \<leftarrow> slice_to b nprime;
     cR \<leftarrow> must (ScalarProduct e a_hi b_lo);
     g_hi \<leftarrow> slice_from g nprime;
     L0 \<leftarrow> must (VectorExp e g_hi a_lo);
     h_lo \<leftarrow> slice_to h nprime;
     Lh \<leftarrow> must (VectorExp e h_lo b_hi);
     let L = p256_Multiply e (p256_Multiply e L0 Lh) (p256_ScalarMult e u cL);
     g_lo \<leftarrow> slice_to g nprime;
     R0 \<leftarrow> must (VectorExp e g_lo a_hi);
     h_hi \<leftarrow> slice_from h nprime;
     Rh \<leftarrow> must (VectorExp e h_hi b_lo);
     let R = p256_Multiply e (p256_Multiply e R0 Rh) (p256_ScalarMult e u cR);
     (x, _) \<leftarrow> must (HashBP e L R);
     xinv \<leftarrow> ModInverse x (ORDER e);
     let gprime = slice_of (VectorECAdd e (VectorScalarExp e g_lo xinv) (VectorScalarExp e g_hi x));
     let hprime = slice_of (VectorECAdd e (VectorScalarExp e h_lo x) (VectorScalarExp e h_hi xinv));
     let x2 = Mod (Multiply x x) (ORDER e);
     x2inv \<leftarrow> ModInverse x2 (ORDER e);
     let Pprime = p256_Multiply e (p256_Multiply e (p256_ScalarMult e L x2) P) (p256_ScalarMult e R x2inv);
     let aprime = slice_of (VectorAdd e (VectorScalarMul e a_lo x) (VectorScalarMul e a_hi xinv));
     let bprime = slice_of (VectorAdd e (VectorScalarMul e b_lo xinv) (VectorScalarMul e b_hi x));
     Some (aprime, bprime, gprime, hprime, Pprime, nprime, Ls @ [L], Rs @ [R])
   }"

text \<open>The branch \<open>n == 1\<close> of \<^verbatim>\<open>BIP\<close>.\<close>

definition BIP_end ::
  "int list \<Rightarrow> int list \<Rightarrow> 'p list \<Rightarrow> 'p list \<Rightarrow> 'p \<Rightarrow> 'p \<Rightarrow> 'p list \<Rightarrow> 'p list \<Rightarrow> 'p proofBip run" where
  "BIP_end a b g h u P Ls Rs = do {
     a0 \<leftarrow> index a 0;
     b0 \<leftarrow> index b 0;
     g0 \<leftarrow> index g 0;
     h0 \<leftarrow> index h 0;
     Some \<lparr>pip_Ls = Ls, pip_Rs = Rs, pip_u = u, pip_P = P, pip_g = g0, pip_h = h0,
           pip_a = a0, pip_b = b0, pip_n = 1\<rparr>
   }"

text \<open>
  \<^verbatim>\<open>BIP\<close> calls itself on \<open>n / 2\<close> whenever \<open>n \<noteq> 1\<close>, so on \<open>n = 0\<close> with empty vectors it
  never returns: the outer \<open>None\<close> of its result is the call that does not return,
  \<open>Some None\<close> the panic. Its error result is nil on every path (line 878), so the model
  returns the proof alone. After the inner call returns, \<^verbatim>\<open>proof.n = n\<close> overwrites the
  field.
\<close>

partial_function (option) BIP ::
  "'p curve \<Rightarrow> int list \<Rightarrow> int list \<Rightarrow> 'p list \<Rightarrow> 'p list \<Rightarrow> 'p \<Rightarrow> 'p \<Rightarrow> int \<Rightarrow> 'p list \<Rightarrow> 'p list
   \<Rightarrow> 'p proofBip run option" where
  "BIP e a b g h u P n Ls Rs =
     (if n = 1 then Some (map_option (\<lambda>proof. proof\<lparr>pip_n := n\<rparr>) (BIP_end a b g h u P Ls Rs))
      else
        (case BIP_round e a b g h u P n Ls Rs of
           None \<Rightarrow> Some None
         | Some (aprime, bprime, gprime, hprime, Pprime, nprime, Ls', Rs') \<Rightarrow>
             Option.bind (BIP e aprime bprime gprime hprime u Pprime nprime Ls' Rs')
               (\<lambda>r. Some (map_option (\<lambda>proof. proof\<lparr>pip_n := n\<rparr>) r))))"

declare BIP.simps [code]

definition errArray :: string where
  "errArray = ''Size of first array argument must be equal to the second''"

text \<open>
  \<^verbatim>\<open>bip.Prove(a, b, P)\<close> on the store \<open>hp\<close> and the receiver \<open>zkip\<close>; \<open>P\<close> is the address
  its pointer argument holds. \<^verbatim>\<open>P.Multiply(P, uxc)\<close> overwrites the point at \<open>P\<close>; the
  pointer is stored in \<^verbatim>\<open>zkip.P\<close> in the branch of equal lengths only. On an error the
  proof returned is the zero \<^verbatim>\<open>proofBip\<close>.
\<close>

definition bip_Prove ::
  "'p curve \<Rightarrow> 'p heap \<times> 'p bip \<Rightarrow> int list \<Rightarrow> int list \<Rightarrow> nat
   \<Rightarrow> (('p heap \<times> 'p bip) \<times> (string + 'p proofBip)) run option" where
  "bip_Prove e s a b P =
     (case s of (hp, zkip) \<Rightarrow>
      (case do {
              Pv \<leftarrow> deref hp P;
              r \<leftarrow> HashIP e (bip_g zkip) (bip_h zkip) Pv (bip_c zkip) (bip_n zkip);
              x \<leftarrow> must r;
              let ux = p256_ScalarMult e (bip_u zkip) x;
              let uxc = p256_ScalarMult e ux (bip_c zkip);
              Some (ux, hp[P := p256_Multiply e Pv uxc])
            } of
         None \<Rightarrow> Some None
       | Some (ux, hp1) \<Rightarrow>
           let n = int (length a); m = int (length b) in
           if n \<noteq> m then Some (Some ((hp1, zkip), Inl errArray))
           else
             let zkip1 = zkip\<lparr>bip_P := Some P\<rparr> in
             map_option (map_option (\<lambda>proof. ((hp1, zkip1), Inr proof)))
               (BIP e a b (bip_g zkip1) (bip_h zkip1) ux (hp1 ! P) n [] [])))"

text \<open>
  The loop of \<^verbatim>\<open>bip.Verify\<close>, over \<open>i < len(proof.Ls)\<close>. \<open>Pprime\<close> is the pointer
  \<^verbatim>\<open>zkip.P\<close> itself, and both \<^verbatim>\<open>Pprime.Multiply\<close> overwrite the point it holds; \<open>Pv\<close> is
  that point.
\<close>

fun bip_Verify_loop ::
  "'p curve \<Rightarrow> 'p list \<Rightarrow> 'p list \<Rightarrow> 'p list \<Rightarrow> 'p list \<Rightarrow> 'p \<Rightarrow> int \<Rightarrow> ('p list \<times> 'p list \<times> 'p) run" where
  "bip_Verify_loop e [] Rs gprime hprime Pv nprime = Some (gprime, hprime, Pv)"
| "bip_Verify_loop e (L # Ls) Rs gprime hprime Pv nprime = do {
     let nprime = quo nprime 2;
     R \<leftarrow> index Rs 0;
     (x, _) \<leftarrow> must (HashBP e L R);
     xinv \<leftarrow> ModInverse x (ORDER e);
     g_lo \<leftarrow> slice_to gprime nprime;
     g_hi \<leftarrow> slice_from gprime nprime;
     let gprime = slice_of (VectorECAdd e (VectorScalarExp e g_lo xinv) (VectorScalarExp e g_hi x));
     h_lo \<leftarrow> slice_to hprime nprime;
     h_hi \<leftarrow> slice_from hprime nprime;
     let hprime = slice_of (VectorECAdd e (VectorScalarExp e h_lo x) (VectorScalarExp e h_hi xinv));
     let x2 = Mod (Multiply x x) (ORDER e);
     x2inv \<leftarrow> ModInverse x2 (ORDER e);
     let Pv = p256_Multiply e Pv (p256_ScalarMult e L x2);
     let Pv = p256_Multiply e Pv (p256_ScalarMult e R x2inv);
     bip_Verify_loop e Ls (tl Rs) gprime hprime Pv nprime
   }"

text \<open>
  \<^verbatim>\<open>bip.Verify\<close>. After the loop \<^verbatim>\<open>Pprime.Neg(Pprime)\<close> and \<^verbatim>\<open>nP.Multiply(nP, rhs)\<close>
  overwrite the point of \<^verbatim>\<open>zkip.P\<close> once more (\<open>nP\<close> is the receiver \<open>Pprime\<close>). A nil
  \<^verbatim>\<open>zkip.P\<close> panics at \<^verbatim>\<open>Pprime.Neg\<close> at the latest.
\<close>

definition bip_Verify ::
  "'p curve \<Rightarrow> 'p heap \<times> 'p bip \<Rightarrow> 'p proofBip \<Rightarrow> (('p heap \<times> 'p bip) \<times> bool \<times> string option) run" where
  "bip_Verify e s proof =
     (case s of (hp, zkip) \<Rightarrow> do {
        P \<leftarrow> bip_P zkip;
        Pv \<leftarrow> deref hp P;
        (gprime, hprime, Pv) \<leftarrow>
          bip_Verify_loop e (pip_Ls proof) (pip_Rs proof) (bip_g zkip) (bip_h zkip) Pv (pip_n proof);
        let ab = Mod (Multiply (pip_a proof) (pip_b proof)) (ORDER e);
        g0 \<leftarrow> index gprime 0;
        h0 \<leftarrow> index hprime 0;
        let rhs = p256_ScalarMult e g0 (pip_a proof);
        let hb = p256_ScalarMult e h0 (pip_b proof);
        let rhs = p256_Multiply e rhs hb;
        let rhs = p256_Multiply e rhs (p256_ScalarMult e (pip_u proof) ab);
        let nP = p256_Neg e Pv;
        let nP = p256_Multiply e nP rhs;
        let c = p256_IsZero e nP;
        Some ((hp[P := nP], zkip), c, None)
      })"


subsection \<open>The range proof: Prove and Verify\<close>

text \<open>
  The switch of generators, the same lines in \<^verbatim>\<open>bp.Prove\<close> (578 to 588) and \<^verbatim>\<open>bp.Verify\<close>
  (619 to 632): \<open>hprime[0] = h[0]\<close> and \<open>hprime[i] = h[i]^expy\<close> with \<open>expy\<close> the
  unreduced power \<open>yinv^i\<close>. A nil \<open>yinv\<close> panics in the first round of the loop, and is
  never used when \<open>n = 1\<close>.
\<close>

fun switch_loop :: "'p curve \<Rightarrow> 'p list \<Rightarrow> int \<Rightarrow> int \<Rightarrow> int \<Rightarrow> nat \<Rightarrow> 'p list run" where
  "switch_loop e h expy yinv i 0 = Some []"
| "switch_loop e h expy yinv i (Suc k) = do {
     hi \<leftarrow> index h i;
     rest \<leftarrow> switch_loop e h (Multiply expy yinv) yinv (i + 1) k;
     Some (p256_ScalarMult e hi expy # rest)
   }"

definition switch_generators :: "'p curve \<Rightarrow> int \<Rightarrow> 'p list \<Rightarrow> int \<Rightarrow> 'p list run" where
  "switch_generators e n h y =
     (if n \<le> 0 then None
      else do {
        h0 \<leftarrow> index h 0;
        if n = 1 then Some [h0]
        else do {
          yinv \<leftarrow> ModInverse y (ORDER e);
          rest \<leftarrow> switch_loop e h yinv yinv 1 (nat n - 1);
          Some (h0 # rest)
        }
      })"

text \<open>
  The straight-line part of \<^verbatim>\<open>bp.Prove\<close>, up to the call of \<^verbatim>\<open>zkip.Prove\<close> (lines 471 to
  594): the proof without its inner-product part, the vectors \<open>bl\<close>, \<open>br\<close>, the
  switched generators and the commitment. The random numbers are drawn in the order
  \<open>gamma\<close>, \<open>alpha\<close>, \<open>rho\<close>, \<open>sL[0]\<close>, \<open>sR[0]\<close>, \<open>sL[1]\<close>, ..., \<open>tau1\<close>, \<open>tau2\<close>.
\<close>

definition bp_Prove_phases ::
  "'p curve \<Rightarrow> (nat \<Rightarrow> int) \<Rightarrow> 'p bp \<Rightarrow> int
   \<Rightarrow> ('p proofBP \<times> int list \<times> int list \<times> 'p list \<times> 'p) run" where
  "bp_Prove_phases e rnd zkrp secret = do {
     let n = bp_n zkrp;
     let gamma = rnd 0;
     let V = CommitG1 e secret gamma (bp_H zkrp);
     let aL = slice_of (Decompose secret 2 n);
     let aR = slice_of (ComputeAR aL);
     let alpha = rnd 1;
     A \<leftarrow> CommitVector e aL aR alpha (bp_G zkrp) (bp_H zkrp) (bp_g zkrp) (bp_h zkrp) n;
     let rho = rnd 2;
     sL \<leftarrow> (if n < 0 then None else Some (map (\<lambda>i. rnd (3 + 2 * i)) [0..<nat n]));
     sR \<leftarrow> (if n < 0 then None else Some (map (\<lambda>i. rnd (4 + 2 * i)) [0..<nat n]));
     S \<leftarrow> CommitVectorBig e sL sR rho (bp_G zkrp) (bp_H zkrp) (bp_g zkrp) (bp_h zkrp) n;
     (y, z) \<leftarrow> must (HashBP e A S);
     let tau1 = rnd (3 + 2 * nat n);
     let tau2 = rnd (4 + 2 * nat n);
     vz \<leftarrow> VectorCopy z n;
     vy \<leftarrow> PowerOf e y n;
     naL \<leftarrow> VectorConvertToBig aL n;
     let aLmvz = slice_of (VectorSub e naL vz);
     let ynsR = slice_of (VectorMul e vy sR);
     sp1 \<leftarrow> must (ScalarProduct e aLmvz ynsR);
     naR \<leftarrow> VectorConvertToBig aR n;
     let aRzn = slice_of (VectorAdd e naR vz);
     let ynaRzn = slice_of (VectorMul e vy aRzn);
     p2n \<leftarrow> PowerOf e 2 n;
     let zsquared = Multiply z z;
     let z22n = VectorScalarMul e p2n zsquared;
     let ynaRzn = slice_of (VectorAdd e ynaRzn z22n);
     sp2 \<leftarrow> must (ScalarProduct e sL ynaRzn);
     let t1 = Mod (Add sp1 sp2) (ORDER e);
     t2 \<leftarrow> must (ScalarProduct e sL ynsR);
     let t2 = Mod t2 (ORDER e);
     let T1 = CommitG1 e t1 tau1 (bp_H zkrp);
     let T2 = CommitG1 e t2 tau2 (bp_H zkrp);
     (x, _) \<leftarrow> must (HashBP e T1 T2);
     let sLx = VectorScalarMul e sL x;
     let bl = slice_of (VectorAdd e aLmvz sLx);
     let sRx = VectorScalarMul e sR x;
     let aRzn = slice_of (VectorAdd e aRzn sRx);
     let ynaRzn = slice_of (VectorMul e vy aRzn);
     let br = slice_of (VectorAdd e ynaRzn z22n);
     tprime \<leftarrow> must (ScalarProduct e bl br);
     let taux = Multiply tau2 (Multiply x x);
     let taux = Add taux (Multiply tau1 x);
     let taux = Add taux (Multiply (Multiply z z) gamma);
     let taux = Mod taux (ORDER e);
     let mu = Multiply rho x;
     let mu = Add mu alpha;
     let mu = Mod mu (ORDER e);
     hprime \<leftarrow> switch_generators e n (bp_h zkrp) y;
     commit \<leftarrow> CommitInnerProduct e (bp_g zkrp) hprime bl br;
     Some (\<lparr>pf_V = V, pf_A = A, pf_S = S, pf_T1 = T1, pf_T2 = T2, pf_taux = taux, pf_mu = mu,
            pf_tprime = tprime, pf_proofip = None\<rparr>, bl, br, hprime, commit)
   }"

text \<open>
  \<^verbatim>\<open>bp.Prove\<close>: the assignments to \<^verbatim>\<open>zkrp.zkip.h\<close> and \<^verbatim>\<open>zkrp.zkip.c\<close> (lines 591 and 592),
  the commitment in a fresh cell of the store, the call of \<^verbatim>\<open>zkip.Prove\<close> with its error
  discarded, and \<^verbatim>\<open>return proof, nil\<close>.
\<close>

definition bp_Prove ::
  "'p curve \<Rightarrow> (nat \<Rightarrow> int) \<Rightarrow> 'p heap \<times> 'p bp \<Rightarrow> int
   \<Rightarrow> (('p heap \<times> 'p bp) \<times> 'p proofBP \<times> string option) run option" where
  "bp_Prove e rnd s secret =
     (case s of (hp, zkrp) \<Rightarrow>
      (case bp_Prove_phases e rnd zkrp secret of
         None \<Rightarrow> Some None
       | Some (proof, bl, br, hprime, commit) \<Rightarrow>
           let zkip = (bp_zkip zkrp)\<lparr>bip_h := hprime, bip_c := pf_tprime proof\<rparr>;
               P = length hp
           in map_option
                (map_option (\<lambda>((hp', zkip'), r).
                   ((hp', zkrp\<lparr>bp_zkip := zkip'\<rparr>),
                    proof\<lparr>pf_proofip := (case r of Inl _ \<Rightarrow> None | Inr proofip \<Rightarrow> Some proofip)\<rparr>,
                    None)))
                (bip_Prove e (hp @ [commit], zkip) bl br P)))"

text \<open>
  \<^verbatim>\<open>bp.Verify\<close>. The switched generators are computed and not used; the inner-product
  proof is checked by \<^verbatim>\<open>zkrp.zkip.Verify\<close> on the state \<^verbatim>\<open>bp.Prove\<close> left in \<^verbatim>\<open>zkip\<close>. The
  zero \<^verbatim>\<open>proofBip\<close> has nil scalars, on which \<^verbatim>\<open>bip.Verify\<close> panics.
\<close>

definition bp_Verify ::
  "'p curve \<Rightarrow> 'p heap \<times> 'p bp \<Rightarrow> 'p proofBP \<Rightarrow> (('p heap \<times> 'p bp) \<times> bool \<times> string option) run" where
  "bp_Verify e s proof =
     (case s of (hp, zkrp) \<Rightarrow> do {
        (y, z) \<leftarrow> must (HashBP e (pf_A proof) (pf_S proof));
        (x, _) \<leftarrow> must (HashBP e (pf_T1 proof) (pf_T2 proof));
        hprime \<leftarrow> switch_generators e (bp_n zkrp) (bp_h zkrp) y;
        let lhs = CommitG1 e (pf_tprime proof) (pf_taux proof) (bp_H zkrp);
        let z2 = Mod (Multiply z z) (ORDER e);
        let x2 = Mod (Multiply x x) (ORDER e);
        let rhs = p256_ScalarMult e (pf_V proof) z2;
        delta \<leftarrow> Delta e zkrp y z;
        let gdelta = p256_ScalarBaseMult e delta;
        let rhs = p256_Multiply e rhs gdelta;
        let T1x = p256_ScalarMult e (pf_T1 proof) x;
        let T2x2 = p256_ScalarMult e (pf_T2 proof) x2;
        let rhs = p256_Multiply e rhs T1x;
        let rhs = p256_Multiply e rhs T2x2;
        let lhs = p256_Neg e lhs;
        let rhs = p256_Multiply e rhs lhs;
        let c65 = p256_IsZero e rhs;
        proofip \<leftarrow> pf_proofip proof;
        ((hp', zkip'), ok, _) \<leftarrow> bip_Verify e (hp, bp_zkip zkrp) proofip;
        let result = c65 \<and> ok;
        Some ((hp', zkrp\<lparr>bp_zkip := zkip'\<rparr>), result, None)
      })"

subsection \<open>The notions of the specification\<close>

text \<open>
  The inner product \<open>\<langle>a, b\<rangle>\<close>, the vector \<open>1\<^sup>n\<close> and the vector of powers
  \<open>(1, x, x\<^sup>2, ..., x\<^sup>n\<^sup>-\<^sup>1)\<close>, over the integers.
\<close>

definition inner :: "int list \<Rightarrow> int list \<Rightarrow> int" where
  "inner a b = sum_list (map2 (*) a b)"

definition ones :: "nat \<Rightarrow> int list" where
  "ones n = replicate n 1"

definition powers :: "int \<Rightarrow> nat \<Rightarrow> int list" where
  "powers x n = map (\<lambda>i. x ^ i) [0..<n]"

text \<open>The unsigned integer a byte string denotes, most significant byte first.\<close>

fun little_endian :: "byte list \<Rightarrow> int" where
  "little_endian [] = 0"
| "little_endian (b # bs) = uint b + 256 * little_endian bs"

definition big_endian :: "byte list \<Rightarrow> int" where
  "big_endian bs = little_endian (rev bs)"

text \<open>The product \<open>\<Prod> ps\<close> of a list of points.\<close>

definition pprod :: "'p curve \<Rightarrow> 'p list \<Rightarrow> 'p" where
  "pprod e ps = foldl (p256_Multiply e) (p256_SetInfinity e) ps"

text \<open>
  The halving step of the inner-product argument for \<open>n = 2 n'\<close>, as the specification
  writes it, by index:
  \<open>L = \<Prod> g[n'+i]^a[i] \<cdot> \<Prod> h[i]^b[n'+i] \<cdot> u^c\<^sub>L\<close> with \<open>c\<^sub>L = \<langle>a[:n'], b[n':]\<rangle>\<close>,
  \<open>R = \<Prod> g[i]^a[n'+i] \<cdot> \<Prod> h[n'+i]^b[i] \<cdot> u^c\<^sub>R\<close> with \<open>c\<^sub>R = \<langle>a[n':], b[:n']\<rangle>\<close>,
  \<open>g'[i] = g[i]^x\<^sup>-\<^sup>1 \<cdot> g[n'+i]^x\<close>, \<open>h'[i] = h[i]^x \<cdot> h[n'+i]^x\<^sup>-\<^sup>1\<close>,
  \<open>P' = L^x\<^sup>2 \<cdot> P \<cdot> R^x\<^sup>-\<^sup>2\<close>,
  \<open>a'[i] = a[i] x + a[n'+i] x\<^sup>-\<^sup>1\<close> and \<open>b'[i] = b[i] x\<^sup>-\<^sup>1 + b[n'+i] x\<close>, the scalars modulo the order.
\<close>

definition halve_L :: "'p curve \<Rightarrow> int list \<Rightarrow> int list \<Rightarrow> 'p list \<Rightarrow> 'p list \<Rightarrow> 'p \<Rightarrow> nat \<Rightarrow> 'p" where
  "halve_L e a b g h u n' =
     p256_Multiply e
       (p256_Multiply e
          (pprod e (map (\<lambda>i. p256_ScalarMult e (g ! (n' + i)) (a ! i)) [0..<n']))
          (pprod e (map (\<lambda>i. p256_ScalarMult e (h ! i) (b ! (n' + i))) [0..<n'])))
       (p256_ScalarMult e u (inner (take n' a) (drop n' b) mod ORDER e))"

definition halve_R :: "'p curve \<Rightarrow> int list \<Rightarrow> int list \<Rightarrow> 'p list \<Rightarrow> 'p list \<Rightarrow> 'p \<Rightarrow> nat \<Rightarrow> 'p" where
  "halve_R e a b g h u n' =
     p256_Multiply e
       (p256_Multiply e
          (pprod e (map (\<lambda>i. p256_ScalarMult e (g ! i) (a ! (n' + i))) [0..<n']))
          (pprod e (map (\<lambda>i. p256_ScalarMult e (h ! (n' + i)) (b ! i)) [0..<n'])))
       (p256_ScalarMult e u (inner (drop n' a) (take n' b) mod ORDER e))"

definition fold_g :: "'p curve \<Rightarrow> 'p list \<Rightarrow> int \<Rightarrow> int \<Rightarrow> nat \<Rightarrow> 'p list" where
  "fold_g e g x xinv n' =
     map (\<lambda>i. p256_Multiply e (p256_ScalarMult e (g ! i) xinv) (p256_ScalarMult e (g ! (n' + i)) x))
       [0..<n']"

definition fold_h :: "'p curve \<Rightarrow> 'p list \<Rightarrow> int \<Rightarrow> int \<Rightarrow> nat \<Rightarrow> 'p list" where
  "fold_h e h x xinv n' =
     map (\<lambda>i. p256_Multiply e (p256_ScalarMult e (h ! i) x) (p256_ScalarMult e (h ! (n' + i)) xinv))
       [0..<n']"

definition fold_P :: "'p curve \<Rightarrow> 'p \<Rightarrow> 'p \<Rightarrow> 'p \<Rightarrow> int \<Rightarrow> int \<Rightarrow> 'p" where
  "fold_P e L R P x xinv =
     p256_Multiply e
       (p256_Multiply e (p256_ScalarMult e L (x * x mod ORDER e)) P)
       (p256_ScalarMult e R (xinv * xinv mod ORDER e))"

definition fold_a :: "'p curve \<Rightarrow> int list \<Rightarrow> int \<Rightarrow> int \<Rightarrow> nat \<Rightarrow> int list" where
  "fold_a e a x xinv n' = map (\<lambda>i. (a ! i * x + a ! (n' + i) * xinv) mod ORDER e) [0..<n']"

definition fold_b :: "'p curve \<Rightarrow> int list \<Rightarrow> int \<Rightarrow> int \<Rightarrow> nat \<Rightarrow> int list" where
  "fold_b e b x xinv n' = map (\<lambda>i. (b ! i * xinv + b ! (n' + i) * x) mod ORDER e) [0..<n']"

text \<open>
  Every Fiat-Shamir challenge has an inverse modulo the order. For SHA-256 and a prime
  order the first scalar of \<^verbatim>\<open>HashBP\<close> is a multiple of the order with negligible
  probability only; the code does not check it and panics on the nil inverse.
\<close>

definition challenges_invertible :: "'p curve \<Rightarrow> bool" where
  "challenges_invertible e \<longleftrightarrow>
     (\<forall>A S. \<exists>x x' xinv. HashBP e A S = Inr (x, x') \<and> ModInverse x (ORDER e) = Some xinv)"




subsection \<open>A small instance: the group of order 7\<close>

text \<open>
  The integers modulo 7, each point the representative in \<open>[0, 7)\<close>, as a curve of order 7
  with base point 1; a hash that depends on the bytes hashed and never yields a multiple
  of 7; and a fixed random tape. The theorems below are instantiated on it.
\<close>

definition toy_String :: "int \<Rightarrow> string" where
  "toy_String p = ''('' @ big_String p @ '','' @ big_String (p * p mod 7) @ '')''"

definition toy_sha :: "string \<Rightarrow> byte list" where
  "toy_sha m = [of_nat (1 + foldl (\<lambda>acc c. (5 * acc + of_char c) mod 6) 0 m)]"

definition toy :: "int curve" where
  "toy = \<lparr>ORDER = 7,
          p256_ScalarBaseMult = (\<lambda>k. k mod 7),
          p256_ScalarMult = (\<lambda>p k. (p * k) mod 7),
          p256_Multiply = (\<lambda>p r. (p + r) mod 7),
          p256_Neg = (\<lambda>p. (- p) mod 7),
          p256_SetInfinity = 0,
          p256_IsZero = (\<lambda>p. p = 0),
          p256_String = toy_String,
          MapToGroup = (\<lambda>s. int (1 + length s mod 6)),
          sha256 = toy_sha\<rparr>"

definition toy_rnd :: "nat \<Rightarrow> int" where
  "toy_rnd k = int (1 + (5 * k + 1) mod 6)"

definition zero_bp :: "int bp" where
  "zero_bp = \<lparr>bp_n = 0, bp_G = 0, bp_H = 0, bp_g = [], bp_h = [],
              bp_zkip = \<lparr>bip_n = 0, bip_c = 0, bip_u = 0, bip_H = 0, bip_g = [], bip_h = [],
                         bip_P = None\<rparr>\<rparr>"

text \<open>
  The parameters \<^verbatim>\<open>Setup(0, 4)\<close> makes on the small instance, the state and the proof
  \<^verbatim>\<open>Prove(1)\<close> then leaves (the store has one cell, the commitment of the inner-product
  argument), and two receivers of \<^verbatim>\<open>bip.Prove\<close> with generators of length 2 and 3.
\<close>

definition toy_params :: "int bp" where
  "toy_params = \<lparr>bp_n = 2, bp_G = 1, bp_H = 1, bp_g = [2, 6], bp_h = [1, 5],
     bp_zkip = \<lparr>bip_n = 0, bip_c = 0, bip_u = 1, bip_H = 1, bip_g = [2, 6], bip_h = [1, 5],
                bip_P = None\<rparr>\<rparr>"

definition toy_zkip :: "int bip" where
  "toy_zkip = \<lparr>bip_n = 0, bip_c = 3, bip_u = 1, bip_H = 1, bip_g = [2, 6], bip_h = [1, 4],
                bip_P = Some 0\<rparr>"

definition toy_state :: "int heap \<times> int bp" where
  "toy_state = ([3], \<lparr>bp_n = 2, bp_G = 1, bp_H = 1, bp_g = [2, 6], bp_h = [1, 5],
                       bp_zkip = toy_zkip\<rparr>)"

definition toy_proof :: "int proofBP" where
  "toy_proof = \<lparr>pf_V = 3, pf_A = 5, pf_S = 6, pf_T1 = 4, pf_T2 = 2, pf_taux = 1, pf_mu = 0,
     pf_tprime = 3,
     pf_proofip = Some \<lparr>pip_Ls = [1], pip_Rs = [2], pip_u = 5, pip_P = 6, pip_g = 0, pip_h = 2,
                        pip_a = 0, pip_b = 3, pip_n = 2\<rparr>\<rparr>"


section \<open>Properties\<close>

subsection \<open>Arithmetic of the vector helpers\<close>

lemma foldl_big_endian: "foldl (\<lambda>acc b. acc * 256 + uint b) 0 bs = big_endian bs"
proof (induction bs rule: rev_induct)
  case Nil
  show ?case by (simp add: big_endian_def)
next
  case (snoc b bs)
  then show ?case by (simp add: big_endian_def)
qed

lemma FromByteArray_big_endian: "FromByteArray bs = Inr (big_endian bs)"
  by (simp add: FromByteArray_def foldl_big_endian)

lemma foldl_mod_sum:
  "foldl (\<lambda>result (x, y). (result + x * y) mod (q::int)) r xs =
     (if xs = [] then r else (r + sum_list (map (\<lambda>(x, y). x * y) xs)) mod q)"
proof (induction xs arbitrary: r)
  case Nil
  show ?case by simp
next
  case (Cons p xs)
  obtain x y where p: "p = (x, y)" by (cases p)
  have "((r + x * y) mod q + t) mod q = (r + (x * y + t)) mod q" for t
    by (simp only: mod_add_left_eq add.assoc)
  then show ?case
    by (simp add: Cons.IH p)
qed

lemma ScalarProduct_inner:
  "length a = length b \<Longrightarrow> ScalarProduct e a b = Inr (inner a b mod ORDER e)"
  by (cases "zip a b = []") (auto simp: ScalarProduct_def foldl_mod_sum inner_def)

lemma PowerOf_loop_length [simp]: "length (PowerOf_loop e x c k) = k"
  by (induction k arbitrary: c) auto

lemma sum_list_mod_map:
  "sum_list (map (\<lambda>v. v mod q) xs) mod q = sum_list xs mod (q::int)"
proof (induction xs)
  case Nil
  show ?case by simp
next
  case (Cons a xs)
  have "(a mod q + sum_list (map (\<lambda>v. v mod q) xs)) mod q = (a + sum_list xs) mod q"
    by (rule mod_add_cong) (simp_all add: Cons.IH)
  then show ?case by simp
qed

lemma PowerOf_loop_mod:
  "map (\<lambda>v. v mod ORDER e) (PowerOf_loop e x c k) = map (\<lambda>i. (c * x ^ i) mod ORDER e) [0..<k]"
proof (induction k arbitrary: c)
  case 0
  show ?case by simp
next
  case (Suc k)
  have "map (\<lambda>i. (c * x ^ i) mod ORDER e) [0..<Suc k]
        = (c mod ORDER e) # map (\<lambda>i. (c * x ^ Suc i) mod ORDER e) [0..<k]"
    by (simp add: upt_conv_Cons map_Suc_upt[symmetric] del: upt_Suc)
  also have "map (\<lambda>i. (c * x ^ Suc i) mod ORDER e) [0..<k]
        = map (\<lambda>i. ((c * x) mod ORDER e * x ^ i) mod ORDER e) [0..<k]"
    by (simp add: mod_mult_left_eq mult.assoc)
  finally show ?case by (simp add: Suc.IH)
qed

lemma inner_ones: "length xs = n \<Longrightarrow> inner (ones n) xs = sum_list xs"
  unfolding inner_def ones_def
  by (induction xs arbitrary: n) auto

lemma sum_PowerOf_loop:
  "sum_list (PowerOf_loop e x 1 k) mod ORDER e = sum_list (powers x k) mod ORDER e"
proof -
  have "sum_list (PowerOf_loop e x 1 k) mod ORDER e
        = sum_list (map (\<lambda>v. v mod ORDER e) (PowerOf_loop e x 1 k)) mod ORDER e"
    by (simp add: sum_list_mod_map)
  also have "\<dots> = sum_list (map (\<lambda>v. v mod ORDER e) (powers x k)) mod ORDER e"
    by (simp add: PowerOf_loop_mod powers_def comp_def)
  finally show ?thesis by (simp add: sum_list_mod_map)
qed

lemma Delta_eq:
  assumes "0 \<le> bp_n zkrp"
  shows "Delta e zkrp y z =
     Some (((z - z\<^sup>2) * inner (ones (nat (bp_n zkrp))) (powers y (nat (bp_n zkrp)))
            - z ^ 3 * inner (ones (nat (bp_n zkrp))) (powers 2 (nat (bp_n zkrp)))) mod ORDER e)"
proof -
  let ?n = "nat (bp_n zkrp)" and ?q = "ORDER e"
  have sp: "ScalarProduct e (replicate ?n 1) (PowerOf_loop e w 1 ?n)
            = Inr (sum_list (powers w ?n) mod ?q)" for w
    using ScalarProduct_inner[of "replicate ?n 1" "PowerOf_loop e w 1 ?n" e]
    by (simp add: inner_ones[unfolded ones_def] sum_PowerOf_loop)
  have io: "inner (ones ?n) (powers w ?n) = sum_list (powers w ?n)" for w
    by (rule inner_ones) (simp add: powers_def)
  have arith: "((z - z * z mod ?q) * (s1 mod ?q) - (z * z mod ?q * z mod ?q) * (s2 mod ?q)) mod ?q
               = ((z - z\<^sup>2) * s1 - z ^ 3 * s2) mod ?q" for s1 s2
  proof -
    have a: "(z - z * z mod ?q) mod ?q = (z - z\<^sup>2) mod ?q"
      by (simp add: power2_eq_square mod_diff_right_eq)
    have b: "(z * z mod ?q * z mod ?q) mod ?q = z ^ 3 mod ?q"
      by (simp add: power3_eq_cube mod_mult_left_eq)
    have c: "((z - z * z mod ?q) * (s1 mod ?q)) mod ?q = ((z - z\<^sup>2) * s1) mod ?q"
      by (rule mod_mult_cong) (rule a, simp)
    have d: "((z * z mod ?q * z mod ?q) * (s2 mod ?q)) mod ?q = (z ^ 3 * s2) mod ?q"
      by (rule mod_mult_cong) (rule b, simp)
    show ?thesis by (rule mod_diff_cong) (rule c, rule d)
  qed
  have "Delta e zkrp y z =
     Some (((z - z * z mod ?q) * (sum_list (powers y ?n) mod ?q)
            - (z * z mod ?q * z mod ?q) * (sum_list (powers 2 ?n) mod ?q)) mod ?q)"
    using assms
    by (simp add: Delta_def VectorCopy_def PowerOf_def must_def sp Let_def)
  then show ?thesis
    by (simp only: io arith)
qed

subsection \<open>Delta\<close>

text \<open>
  C8: for every pair of scalars \<open>y\<close>, \<open>z\<close> and parameters of bit-width \<open>n\<close>, \<open>Delta\<close>
  returns \<open>(z - z\<^sup>2) \<cdot> \<langle>1\<^sup>n, y\<^sup>n\<rangle> - z\<^sup>3 \<cdot> \<langle>1\<^sup>n, 2\<^sup>n\<rangle>\<close> reduced modulo the order \<open>q\<close>, a value
  in \<open>[0, q)\<close>, although the vectors and the intermediate products are reduced at other
  places in the code and the subtraction can be negative. (A negative \<open>n\<close> makes
  \<^verbatim>\<open>make\<close> panic.)
\<close>

theorem Delta_exact:
  assumes "0 < ORDER e" and "0 \<le> bp_n zkrp"
  shows "Delta e zkrp y z =
           Some (((z - z\<^sup>2) * inner (ones (nat (bp_n zkrp))) (powers y (nat (bp_n zkrp)))
                  - z ^ 3 * inner (ones (nat (bp_n zkrp))) (powers 2 (nat (bp_n zkrp)))) mod ORDER e)
         \<and> (\<exists>d. Delta e zkrp y z = Some d \<and> 0 \<le> d \<and> d < ORDER e)"
  using assms by (simp add: Delta_eq)

theorem Delta_exact_witness:
  "0 < ORDER toy \<and> 0 \<le> bp_n (zero_bp\<lparr>bp_n := 2\<rparr>)
   \<and> (3 - 3\<^sup>2) * inner (ones 2) (powers 2 2) - 3 ^ 3 * inner (ones 2) (powers 2 2) = (- 99 :: int)
   \<and> Delta toy (zero_bp\<lparr>bp_n := 2\<rparr>) 2 3 = Some 6"
proof -
  have h1: "0 < ORDER toy" by (simp add: toy_def)
  have h2: "0 \<le> bp_n (zero_bp\<lparr>bp_n := 2\<rparr>)" by simp
  have n: "nat (bp_n (zero_bp\<lparr>bp_n := 2\<rparr>)) = 2" by simp
  have v: "(3 - 3\<^sup>2) * inner (ones 2) (powers 2 2) - 3 ^ 3 * inner (ones 2) (powers 2 2) = (- 99 :: int)"
    by code_simp
  have q: "ORDER toy = 7" by (simp add: toy_def)
  show ?thesis
    using Delta_exact [OF h1 h2, of 2 3] h1 v
    by (simp only: n q) simp
qed

subsection \<open>HashBP\<close>

text \<open>
  \<open>HashBP(P, Q)\<close> returns the pair \<open>(s\<^sub>1, s\<^sub>2)\<close> where \<open>s\<^sub>1\<close> is the digest of
  \<open>encode(P) || encode(Q)\<close> and \<open>s\<^sub>2\<close> the digest of \<open>encode(Q) || encode(P)\<close>, each read as
  a big-endian unsigned integer. \<^verbatim>\<open>HashBP\<close> calls no \<^verbatim>\<open>Mod\<close>: the scalars are the reduced
  ones exactly when the digests denote numbers below the order; whether SHA-256 has a
  digest at or above the order of secp256k1 is not decided here.
\<close>

lemma HashBP_unreduced:
  "HashBP e A S =
     Inr (big_endian (sha256 e (p256_String e A @ p256_String e S)),
          big_endian (sha256 e (p256_String e S @ p256_String e A)))"
  by (simp add: HashBP_def FromByteArray_big_endian)

lemma big_endian_nonneg: "0 \<le> big_endian bs"
proof -
  have "0 \<le> little_endian cs" for cs
    by (induction cs) simp_all
  then show ?thesis by (simp add: big_endian_def)
qed

lemma HashBP_reduced_iff:
  assumes "0 < ORDER e"
  shows "HashBP e A S =
           Inr (big_endian (sha256 e (p256_String e A @ p256_String e S)) mod ORDER e,
                big_endian (sha256 e (p256_String e S @ p256_String e A)) mod ORDER e)
         \<longleftrightarrow> big_endian (sha256 e (p256_String e A @ p256_String e S)) < ORDER e
             \<and> big_endian (sha256 e (p256_String e S @ p256_String e A)) < ORDER e"
proof -
  have "v mod ORDER e = v \<longleftrightarrow> v < ORDER e" if "0 \<le> v" for v
    using that assms by (metis mod_pos_pos_trivial pos_mod_bound)
  then show ?thesis
    by (auto simp: HashBP_unreduced big_endian_nonneg eq_commute[of _ "_ mod _"])
qed

subsection \<open>Setup\<close>

lemma Log2_int64_floor:
  assumes "1 \<le> b"
  shows "Log2_int64 b = Some \<lfloor>log 2 (real_of_int b)\<rfloor>"
proof -
  have "0 \<le> log 2 (real_of_int b)" using assms by simp
  then have "0 \<le> \<lfloor>log 2 (real_of_int b)\<rfloor>" by simp
  moreover have "real (nat b) = real_of_int b" using assms by simp
  ultimately show ?thesis
    using assms by (simp add: Log2_int64_def floorlog_def)
qed

lemma Log2_int64_bounds:
  assumes "1 \<le> b" and "Log2_int64 b = Some n"
  shows "0 \<le> n \<and> 2 ^ nat n \<le> b \<and> b < 2 ^ (nat n + 1)"
proof -
  have pos: "0 < nat b" using assms by simp
  have fl: "0 < floorlog 2 (nat b)"
    using pos by (simp add: floorlog_def)
  have n: "n = int (floorlog 2 (nat b)) - 1"
    using assms by (simp add: Log2_int64_def)
  then have nn: "nat n = floorlog 2 (nat b) - 1" by simp
  have b: "(2::nat) ^ (floorlog 2 (nat b) - 1) \<le> nat b \<and> nat b < 2 ^ floorlog 2 (nat b)"
    using floorlog_bounds[of "nat b" 2] pos by simp
  have s: "nat n + 1 = floorlog 2 (nat b)" using nn fl by simp
  have "int ((2::nat) ^ nat n) \<le> int (nat b)"
    using b unfolding nn by (simp only: of_nat_le_iff)
  then have "(2::int) ^ nat n \<le> b"
    using assms(1) by simp
  moreover have "int (nat b) < int ((2::nat) ^ (nat n + 1))"
    using b unfolding s by (simp only: of_nat_less_iff)
  then have "b < 2 ^ (nat n + 1)"
    using assms(1) by simp
  moreover have "0 \<le> n" using n fl by simp
  ultimately show ?thesis by simp
qed

lemma ceiling_log2_iff:
  assumes "1 \<le> b" and "2 ^ k \<le> b" and "b < 2 ^ (k + 1)"
  shows "\<lceil>log 2 (real_of_int b)\<rceil> = int k \<longleftrightarrow> b = 2 ^ k"
proof
  assume "b = 2 ^ k"
  then show "\<lceil>log 2 (real_of_int b)\<rceil> = int k" by simp
next
  assume c: "\<lceil>log 2 (real_of_int b)\<rceil> = int k"
  have "log 2 (real_of_int b) \<le> real_of_int \<lceil>log 2 (real_of_int b)\<rceil>" by (rule le_of_int_ceiling)
  then have "log 2 (real_of_int b) \<le> real k" using c by simp
  then have "real_of_int b \<le> 2 powr (real k)"
    using assms(1) by (simp add: log_le_iff)
  then have "real_of_int b \<le> 2 ^ k" by (simp add: powr_realpow)
  then have "b \<le> 2 ^ k" by (metis of_int_le_iff of_int_numeral of_int_power)
  with assms(2) show "b = 2 ^ k" by simp
qed

text \<open>
  C9, as amended: for every upper bound \<open>b\<close> with \<open>1 \<le> b \<le> 2\<^sup>3\<^sup>2\<close> passed to \<^verbatim>\<open>Setup\<close> (on
  a \<^verbatim>\<open>bp\<close> whose \<^verbatim>\<open>zkip.n\<close> is not negative), the bit-width stored is the integer part
  of the logarithm, \<open>n = \<lfloor>log\<^sub>2 b\<rfloor>\<close>, so that \<open>2\<^sup>n \<le> b < 2\<^sup>n\<^sup>+\<^sup>1\<close>; it is \<open>\<lceil>log\<^sub>2 b\<rceil>\<close> exactly
  when \<open>b\<close> is a power of two.
\<close>

theorem Setup_bit_width:
  assumes "1 \<le> b" and "b \<le> 2 ^ 32" and "0 \<le> bip_n (bp_zkip zkrp)"
  shows "\<exists>zkrp'. bp_Setup e rnd zkrp a b = Some zkrp'
           \<and> bp_n zkrp' = \<lfloor>log 2 (real_of_int b)\<rfloor> \<and> 0 \<le> bp_n zkrp'
           \<and> 2 ^ nat (bp_n zkrp') \<le> b \<and> b < 2 ^ (nat (bp_n zkrp') + 1)
           \<and> (bp_n zkrp' = \<lceil>log 2 (real_of_int b)\<rceil> \<longleftrightarrow> b = 2 ^ nat (bp_n zkrp'))"
proof -
  let ?n = "\<lfloor>log 2 (real_of_int b)\<rfloor>"
  have l: "Log2_int64 b = Some ?n" using assms(1) by (rule Log2_int64_floor)
  have bd: "0 \<le> ?n \<and> 2 ^ nat ?n \<le> b \<and> b < 2 ^ (nat ?n + 1)"
    using Log2_int64_bounds[OF assms(1) l] .
  have c: "\<lceil>log 2 (real_of_int b)\<rceil> = int (nat ?n) \<longleftrightarrow> b = 2 ^ nat ?n"
    using ceiling_log2_iff[OF assms(1), of "nat ?n"] bd by simp
  have "\<exists>zkrp'. bp_Setup e rnd zkrp a b = Some zkrp' \<and> bp_n zkrp' = ?n"
    using assms(3) by (simp add: bp_Setup_def l bip_Setup_def Let_def)
  then obtain zkrp' where z: "bp_Setup e rnd zkrp a b = Some zkrp'" "bp_n zkrp' = ?n" by blast
  have "bp_n zkrp' = \<lceil>log 2 (real_of_int b)\<rceil> \<longleftrightarrow> b = 2 ^ nat (bp_n zkrp')"
    using c bd z(2) by auto
  then show ?thesis using z bd by auto
qed

theorem Setup_bit_width_witness:
  "(1::int) \<le> 4 \<and> (4::int) \<le> 2 ^ 32 \<and> 0 \<le> bip_n (bp_zkip zero_bp)
   \<and> (\<exists>zkrp'. bp_Setup toy toy_rnd zero_bp 0 4 = Some zkrp' \<and> bp_n zkrp' = 2
         \<and> bp_n zkrp' = \<lceil>log 2 (real_of_int 4)\<rceil>)"
proof -
  have h1: "(1::int) \<le> 4" by simp
  have h2: "(4::int) \<le> 2 ^ 32" by simp
  have h3: "0 \<le> bip_n (bp_zkip zero_bp)" by (simp add: zero_bp_def)
  have l: "\<lfloor>log 2 (real_of_int 4)\<rfloor> = 2"
    using floor_log2_div2[of 4] by simp
  have c: "\<lceil>log 2 (real_of_int 4)\<rceil> = 2"
    using ceiling_log2_iff[of 4 2] by simp
  show ?thesis
    using Setup_bit_width [OF h1 h2 h3, of toy toy_rnd 0] h1 h2 h3 
    by (simp only: l c) blast
qed

text \<open>For \<open>b = 3\<close> the bit-width is 1, and \<open>\<lceil>log\<^sub>2 3\<rceil> = 2\<close>.\<close>

theorem Setup_ceiling_counterexample:
  "map_option bp_n (bp_Setup toy toy_rnd zero_bp 0 3) = Some 1
   \<and> \<lceil>log 2 (real_of_int 3)\<rceil> = (2::int)"
proof
  show "map_option bp_n (bp_Setup toy toy_rnd zero_bp 0 3) = Some 1" by code_simp
next
  have "1 < log 2 (real_of_int 3)" by (simp add: less_log_iff)
  moreover have "log 2 (real_of_int 3) \<le> 2" by (simp add: log_le_iff)
  ultimately show "\<lceil>log 2 (real_of_int 3)\<rceil> = (2::int)"
    by (simp add: ceiling_eq_iff)
qed

subsection \<open>Modular inverses\<close>

lemma ModInverse_Some_iff:
  "ModInverse g m = Some y \<longleftrightarrow> 0 \<le> y \<and> y < m \<and> (g * y) mod m = 1 mod m"
proof
  assume "ModInverse g m = Some y"
  then obtain i where i: "i < length (map int [0..<nat m])"
      "(g * (map int [0..<nat m] ! i)) mod m = 1 mod m" "y = map int [0..<nat m] ! i"
    unfolding ModInverse_def find_Some_iff by blast
  then have "y = int i" "i < nat m" by simp_all
  with i(2) show "0 \<le> y \<and> y < m \<and> (g * y) mod m = 1 mod m" by auto
next
  assume a: "0 \<le> y \<and> y < m \<and> (g * y) mod m = 1 mod m"
  have uniq: "y' = y" if "0 \<le> y'" "y' < m" "(g * y') mod m = 1 mod m" for y'
  proof -
    have "(y' * (g * y)) mod m = (y' * 1) mod m"
      by (rule mod_mult_cong) (simp_all add: a)
    moreover have "((g * y') * y) mod m = (1 * y) mod m"
      by (rule mod_mult_cong) (simp_all add: that)
    moreover have "y' * (g * y) = (g * y') * y" by (simp add: ac_simps)
    ultimately have "y' mod m = y mod m" by simp
    then show ?thesis using that a by simp
  qed
  have "\<exists>z. ModInverse g m = Some z"
  proof (cases "ModInverse g m")
    case None
    then have "\<not> (\<exists>x. x \<in> set (map int [0..<nat m]) \<and> (g * x) mod m = 1 mod m)"
      unfolding ModInverse_def find_None_iff by blast
    moreover have "y \<in> set (map int [0..<nat m])"
      using a by (auto simp: image_iff intro!: bexI[of _ "nat y"])
    ultimately show ?thesis using a by blast
  next
    case (Some z)
    then show ?thesis by blast
  qed
  then obtain z where z: "ModInverse g m = Some z" by blast
  then obtain i where i: "i < length (map int [0..<nat m])"
      "(g * (map int [0..<nat m] ! i)) mod m = 1 mod m" "z = map int [0..<nat m] ! i"
    unfolding ModInverse_def find_Some_iff by blast
  then have "z = int i" "i < nat m" by simp_all
  with i(2) have "0 \<le> z" "z < m" "(g * z) mod m = 1 mod m" by auto
  then have "z = y" by (rule uniq)
  with z show "ModInverse g m = Some y" by simp
qed

lemma ModInverse_square:
  assumes "ModInverse x m = Some xinv"
  shows "ModInverse (x * x mod m) m = Some (xinv * xinv mod m)"
proof -
  have a: "0 \<le> xinv" "xinv < m" "(x * xinv) mod m = 1 mod m"
    using assms by (simp_all add: ModInverse_Some_iff)
  then have m: "0 < m" by simp
  have "((x * xinv) * (x * xinv)) mod m = (1 * 1) mod m"
    by (rule mod_mult_cong) (simp_all add: a)
  moreover have "((x * x mod m) * (xinv * xinv mod m)) mod m = ((x * x) * (xinv * xinv)) mod m"
    by (rule mod_mult_cong) simp_all
  moreover have "(x * x) * (xinv * xinv) = (x * xinv) * (x * xinv)" by (simp add: ac_simps)
  ultimately have "((x * x mod m) * (xinv * xinv mod m)) mod m = 1 mod m" by simp
  then show ?thesis
    using m by (simp add: ModInverse_Some_iff)
qed

lemma ModInverse_square_None:
  assumes "ModInverse x m = None"
  shows "ModInverse (x * x mod m) m = None"
proof (rule ccontr)
  assume "ModInverse (x * x mod m) m \<noteq> None"
  then obtain y where y: "0 \<le> y" "y < m" "((x * x mod m) * y) mod m = 1 mod m"
    by (auto simp: ModInverse_Some_iff)
  have "((x * x mod m) * y) mod m = ((x * x) * y) mod m"
    by (rule mod_mult_cong) simp_all
  then have "(x * ((x * y) mod m)) mod m = 1 mod m"
    using y(3) by (simp add: mod_mult_right_eq ac_simps)
  moreover have "0 \<le> (x * y) mod m" "(x * y) mod m < m" using y by simp_all
  ultimately have "ModInverse x m = Some ((x * y) mod m)"
    by (simp add: ModInverse_Some_iff)
  with assms show False by simp
qed

subsection \<open>The halving round of BIP\<close>

lemma quo_double: "0 < n' \<Longrightarrow> quo (2 * int n') 2 = int n'"
  by (simp add: quo_def sgn_mult)

lemma slice_to_take: "n' \<le> length a \<Longrightarrow> slice_to a (int n') = Some (take n' a)"
  by (simp add: slice_to_def)

lemma slice_from_drop: "n' \<le> length a \<Longrightarrow> slice_from a (int n') = Some (drop n' a)"
  by (simp add: slice_from_def)

lemma map2_nth:
  "length xs = length ys \<Longrightarrow> map2 f xs ys = map (\<lambda>i. f (xs ! i) (ys ! i)) [0..<length xs]"
  by (rule nth_equalityI) simp_all

lemma VectorExp_pprod:
  "length ps = length ks \<Longrightarrow>
     VectorExp e ps ks = Inr (pprod e (map (\<lambda>i. p256_ScalarMult e (ps ! i) (ks ! i)) [0..<length ps]))"
proof -
  assume l: "length ps = length ks"
  have "foldl (\<lambda>result (x, y). p256_Multiply e result (p256_ScalarMult e x y)) r (zip ps ks)
        = foldl (p256_Multiply e) r (map2 (p256_ScalarMult e) ps ks)" for r
    by (simp add: foldl_map case_prod_unfold)
  then show ?thesis
    using l by (simp add: VectorExp_def pprod_def map2_nth)
qed

lemma halve_L_code:
  assumes "length a = 2 * n'" "length b = 2 * n'" "length g = 2 * n'" "length h = 2 * n'"
  shows "VectorExp e (drop n' g) (take n' a)
           = Inr (pprod e (map (\<lambda>i. p256_ScalarMult e (g ! (n' + i)) (a ! i)) [0..<n']))"
    and "VectorExp e (take n' h) (drop n' b)
           = Inr (pprod e (map (\<lambda>i. p256_ScalarMult e (h ! i) (b ! (n' + i))) [0..<n']))"
    and "VectorExp e (take n' g) (drop n' a)
           = Inr (pprod e (map (\<lambda>i. p256_ScalarMult e (g ! i) (a ! (n' + i))) [0..<n']))"
    and "VectorExp e (drop n' h) (take n' b)
           = Inr (pprod e (map (\<lambda>i. p256_ScalarMult e (h ! (n' + i)) (b ! i)) [0..<n']))"
  using assms by (auto simp: VectorExp_pprod intro!: arg_cong[where f = "pprod e"])

lemma fold_g_code:
  assumes "length g = 2 * n'"
  shows "slice_of (VectorECAdd e (VectorScalarExp e (take n' g) xinv) (VectorScalarExp e (drop n' g) x))
         = fold_g e g x xinv n'"
  using assms
  by (auto simp: VectorECAdd_def VectorScalarExp_def slice_of_def fold_g_def intro!: nth_equalityI)

lemma fold_h_code:
  assumes "length h = 2 * n'"
  shows "slice_of (VectorECAdd e (VectorScalarExp e (take n' h) x) (VectorScalarExp e (drop n' h) xinv))
         = fold_h e h x xinv n'"
  using assms
  by (auto simp: VectorECAdd_def VectorScalarExp_def slice_of_def fold_h_def intro!: nth_equalityI)

lemma fold_a_code:
  assumes "length a = 2 * n'"
  shows "slice_of (VectorAdd e (VectorScalarMul e (take n' a) x) (VectorScalarMul e (drop n' a) xinv))
         = fold_a e a x xinv n'"
  using assms
  by (auto simp: VectorAdd_def VectorScalarMul_def slice_of_def fold_a_def mod_add_eq intro!: nth_equalityI)

lemma fold_b_code:
  assumes "length b = 2 * n'"
  shows "slice_of (VectorAdd e (VectorScalarMul e (take n' b) xinv) (VectorScalarMul e (drop n' b) x))
         = fold_b e b x xinv n'"
  using assms
  by (auto simp: VectorAdd_def VectorScalarMul_def slice_of_def fold_b_def mod_add_eq intro!: nth_equalityI)

lemma BIP_round_eq:
  assumes len: "length a = 2 * n'" "length b = 2 * n'" "length g = 2 * n'" "length h = 2 * n'"
    and n': "0 < n'"
    and hash: "HashBP e (halve_L e a b g h u n') (halve_R e a b g h u n') = Inr (x, x')"
    and inv: "ModInverse x (ORDER e) = Some xinv"
  shows "BIP_round e a b g h u P (2 * int n') Ls Rs =
     Some (fold_a e a x xinv n', fold_b e b x xinv n', fold_g e g x xinv n', fold_h e h x xinv n',
           fold_P e (halve_L e a b g h u n') (halve_R e a b g h u n') P x xinv, int n',
           Ls @ [halve_L e a b g h u n'], Rs @ [halve_R e a b g h u n'])"
proof -
  have sl: "slice_to a (int n') = Some (take n' a)" "slice_from a (int n') = Some (drop n' a)"
      "slice_to b (int n') = Some (take n' b)" "slice_from b (int n') = Some (drop n' b)"
      "slice_to g (int n') = Some (take n' g)" "slice_from g (int n') = Some (drop n' g)"
      "slice_to h (int n') = Some (take n' h)" "slice_from h (int n') = Some (drop n' h)"
    using len by (simp_all add: slice_to_take slice_from_drop)
  have sp: "ScalarProduct e (take n' a) (drop n' b) = Inr (inner (take n' a) (drop n' b) mod ORDER e)"
      "ScalarProduct e (drop n' a) (take n' b) = Inr (inner (drop n' a) (take n' b) mod ORDER e)"
    using len by (simp_all add: ScalarProduct_inner)
  note ve = halve_L_code[OF len, of e]
  have L: "p256_Multiply e
       (p256_Multiply e
          (pprod e (map (\<lambda>i. p256_ScalarMult e (g ! (n' + i)) (a ! i)) [0..<n']))
          (pprod e (map (\<lambda>i. p256_ScalarMult e (h ! i) (b ! (n' + i))) [0..<n'])))
       (p256_ScalarMult e u (inner (take n' a) (drop n' b) mod ORDER e)) = halve_L e a b g h u n'"
    by (simp add: halve_L_def)
  have R: "p256_Multiply e
       (p256_Multiply e
          (pprod e (map (\<lambda>i. p256_ScalarMult e (g ! i) (a ! (n' + i))) [0..<n']))
          (pprod e (map (\<lambda>i. p256_ScalarMult e (h ! (n' + i)) (b ! i)) [0..<n'])))
       (p256_ScalarMult e u (inner (drop n' a) (take n' b) mod ORDER e)) = halve_R e a b g h u n'"
    by (simp add: halve_R_def)
  have inv2: "ModInverse (x * x mod ORDER e) (ORDER e) = Some (xinv * xinv mod ORDER e)"
    using inv by (rule ModInverse_square)
  show ?thesis
    unfolding BIP_round_def
    by (simp add: quo_double[OF n'] sl sp ve must_def L R hash inv inv2
          fold_g_code[OF len(3)] fold_h_code[OF len(4)] fold_a_code[OF len(1)] fold_b_code[OF len(2)]
          fold_P_def Let_def)
qed

subsection \<open>The recursion of BIP\<close>

lemma fold_lengths [simp]:
  "length (fold_a e a x xinv n') = n'" "length (fold_b e b x xinv n') = n'"
  "length (fold_g e g x xinv n') = n'" "length (fold_h e h x xinv n') = n'"
  by (simp_all add: fold_a_def fold_b_def fold_g_def fold_h_def)

lemma BIP_end_eq:
  assumes "a \<noteq> []" "b \<noteq> []" "g \<noteq> []" "h \<noteq> []"
  shows "BIP_end a b g h u P Ls Rs =
     Some \<lparr>pip_Ls = Ls, pip_Rs = Rs, pip_u = u, pip_P = P, pip_g = g ! 0, pip_h = h ! 0,
           pip_a = a ! 0, pip_b = b ! 0, pip_n = 1\<rparr>"
  using assms by (simp add: BIP_end_def index_def)

lemma BIP_base:
  assumes "a \<noteq> []" "b \<noteq> []" "g \<noteq> []" "h \<noteq> []"
  shows "BIP e a b g h u P 1 Ls Rs =
     Some (Some \<lparr>pip_Ls = Ls, pip_Rs = Rs, pip_u = u, pip_P = P, pip_g = g ! 0, pip_h = h ! 0,
                 pip_a = a ! 0, pip_b = b ! 0, pip_n = 1\<rparr>)"
  by (subst BIP.simps) (simp add: BIP_end_eq[OF assms])

lemma BIP_step:
  assumes len: "length a = 2 * n'" "length b = 2 * n'" "length g = 2 * n'" "length h = 2 * n'"
    and n': "0 < n'"
    and hash: "HashBP e (halve_L e a b g h u n') (halve_R e a b g h u n') = Inr (x, x')"
    and inv: "ModInverse x (ORDER e) = Some xinv"
  shows "BIP e a b g h u P (2 * int n') Ls Rs =
     Option.bind
       (BIP e (fold_a e a x xinv n') (fold_b e b x xinv n') (fold_g e g x xinv n')
          (fold_h e h x xinv n') u
          (fold_P e (halve_L e a b g h u n') (halve_R e a b g h u n') P x xinv) (int n')
          (Ls @ [halve_L e a b g h u n']) (Rs @ [halve_R e a b g h u n']))
       (\<lambda>r. Some (map_option (\<lambda>proof. proof\<lparr>pip_n := 2 * int n'\<rparr>) r))"
proof -
  have ne: "2 * int n' \<noteq> 1" by presburger
  show ?thesis
    by (subst BIP.simps) (simp add: ne BIP_round_eq[OF len n' hash inv])
qed

lemma BIP_n_field:
  assumes "BIP e a b g h u P n Ls Rs = Some (Some proof)"
  shows "pip_n proof = n"
proof (cases "n = 1")
  case True
  with assms show ?thesis
    by (subst (asm) BIP.simps) auto
next
  case False
  with assms show ?thesis
    by (subst (asm) BIP.simps) (auto split: option.splits simp: bind_eq_Some_conv)
qed

lemma BIP_returns:
  assumes ci: "challenges_invertible e"
  shows "length a = 2 ^ k \<Longrightarrow> length b = 2 ^ k \<Longrightarrow> length g = 2 ^ k \<Longrightarrow> length h = 2 ^ k \<Longrightarrow>
     \<exists>proof. BIP e a b g h u P (2 ^ k) Ls Rs = Some (Some proof)
        \<and> pip_n proof = 2 ^ k \<and> length (pip_Ls proof) = length Ls + k
        \<and> length (pip_Rs proof) = length Rs + k \<and> pip_u proof = u"
proof (induction k arbitrary: a b g h P Ls Rs)
  case 0
  then have "a \<noteq> []" "b \<noteq> []" "g \<noteq> []" "h \<noteq> []" by auto
  then show ?case by (simp add: BIP_base)
next
  case (Suc k)
  let ?n' = "(2::nat) ^ k"
  have len: "length a = 2 * ?n'" "length b = 2 * ?n'" "length g = 2 * ?n'" "length h = 2 * ?n'"
    using Suc.prems by simp_all
  have n': "0 < ?n'" by simp
  obtain x x' xinv where hash: "HashBP e (halve_L e a b g h u ?n') (halve_R e a b g h u ?n') = Inr (x, x')"
    and inv: "ModInverse x (ORDER e) = Some xinv"
    using ci unfolding challenges_invertible_def by blast
  have n: "(2::int) ^ Suc k = 2 * int ?n'" by simp
  have "\<exists>pr. BIP e (fold_a e a x xinv ?n') (fold_b e b x xinv ?n') (fold_g e g x xinv ?n')
          (fold_h e h x xinv ?n') u
          (fold_P e (halve_L e a b g h u ?n') (halve_R e a b g h u ?n') P x xinv) (2 ^ k)
          (Ls @ [halve_L e a b g h u ?n']) (Rs @ [halve_R e a b g h u ?n']) = Some (Some pr)
      \<and> pip_n pr = 2 ^ k
      \<and> length (pip_Ls pr) = length (Ls @ [halve_L e a b g h u ?n']) + k
      \<and> length (pip_Rs pr) = length (Rs @ [halve_R e a b g h u ?n']) + k
      \<and> pip_u pr = u"
    by (rule Suc.IH) simp_all
  then obtain pr where p: "BIP e (fold_a e a x xinv ?n') (fold_b e b x xinv ?n') (fold_g e g x xinv ?n')
          (fold_h e h x xinv ?n') u
          (fold_P e (halve_L e a b g h u ?n') (halve_R e a b g h u ?n') P x xinv) (2 ^ k)
          (Ls @ [halve_L e a b g h u ?n']) (Rs @ [halve_R e a b g h u ?n']) = Some (Some pr)"
      "length (pip_Ls pr) = length (Ls @ [halve_L e a b g h u ?n']) + k"
      "length (pip_Rs pr) = length (Rs @ [halve_R e a b g h u ?n']) + k"
      "pip_u pr = u"
    by blast
  have i: "int ?n' = 2 ^ k" by simp
  show ?case
    unfolding n
    by (subst BIP_step[OF len n' hash inv]) (use p in \<open>simp add: i\<close>)
qed

subsection \<open>The challenges of the small instance\<close>

lemma toy_fold_less: "r < 6 \<Longrightarrow> foldl (\<lambda>acc c. (5 * acc + of_char c) mod 6) r m < (6::nat)"
  by (induction m arbitrary: r) simp_all

lemma toy_sha_range: "\<exists>v. 1 \<le> v \<and> v \<le> 6 \<and> FromByteArray (toy_sha m) = Inr v"
proof -
  let ?r = "foldl (\<lambda>acc c. (5 * acc + of_char c) mod 6) (0::nat) m"
  have r: "?r < (6::nat)" by (rule toy_fold_less) simp
  have "uint (of_nat (1 + ?r) :: byte) = int (1 + ?r)"
  proof -
    have "1 + ?r < 2 ^ LENGTH(8)" using r by simp
    then have "unat (of_nat (1 + ?r) :: byte) = 1 + ?r"
      by (simp only: unat_of_nat mod_less)
    then show ?thesis by (simp only: uint_nat)
  qed
  then have "FromByteArray (toy_sha m) = Inr (int (1 + ?r))"
    by (simp add: FromByteArray_def toy_sha_def)
  moreover have "1 \<le> int (1 + ?r) \<and> int (1 + ?r) \<le> 6" using r by simp
  ultimately show ?thesis by blast
qed

lemma toy_ModInverse: "1 \<le> v \<Longrightarrow> v \<le> 6 \<Longrightarrow> \<exists>vinv. ModInverse v 7 = Some vinv"
proof -
  assume "1 \<le> v" "v \<le> 6"
  then consider "v = 1" | "v = 2" | "v = 3" | "v = 4" | "v = 5" | "v = 6" by linarith
  then show ?thesis
  proof cases
    case 1 then show ?thesis by (auto simp: ModInverse_Some_iff intro!: exI[of _ 1])
  next
    case 2 then show ?thesis by (auto simp: ModInverse_Some_iff intro!: exI[of _ 4])
  next
    case 3 then show ?thesis by (auto simp: ModInverse_Some_iff intro!: exI[of _ 5])
  next
    case 4 then show ?thesis by (auto simp: ModInverse_Some_iff intro!: exI[of _ 2])
  next
    case 5 then show ?thesis by (auto simp: ModInverse_Some_iff intro!: exI[of _ 3])
  next
    case 6 then show ?thesis by (auto simp: ModInverse_Some_iff intro!: exI[of _ 6])
  qed
qed

lemma toy_challenges_invertible: "challenges_invertible toy"
  unfolding challenges_invertible_def
proof (intro allI)
  fix A S :: int
  obtain v where v: "1 \<le> v" "v \<le> 6"
      "FromByteArray (toy_sha (p256_String toy A @ p256_String toy S)) = Inr v"
    using toy_sha_range by blast
  obtain w where w: "FromByteArray (toy_sha (p256_String toy S @ p256_String toy A)) = Inr w"
    using toy_sha_range by blast
  have s: "sha256 toy = toy_sha" by (simp add: toy_def)
  have "HashBP toy A S = Inr (v, w)"
    by (simp add: HashBP_def s v w)
  moreover obtain vinv where "ModInverse v (ORDER toy) = Some vinv"
    using toy_ModInverse[OF v(1,2)] by (auto simp: toy_def)
  ultimately show "\<exists>x x' xinv. HashBP toy A S = Inr (x, x') \<and> ModInverse x (ORDER toy) = Some xinv"
    by blast
qed

subsection \<open>The recursion follows the halving steps\<close>

text \<open>
  C7: for vectors \<open>a\<close>, \<open>b\<close> (and generators \<open>g\<close>, \<open>h\<close>) of length \<open>n = 2 n'\<close>, \<^verbatim>\<open>BIP\<close> calls
  itself on the folded generators \<open>g'[i] = g[i]^x\<^sup>-\<^sup>1 \<cdot> g[n'+i]^x\<close> and
  \<open>h'[i] = h[i]^x \<cdot> h[n'+i]^x\<^sup>-\<^sup>1\<close>, the commitment \<open>P' = L^x\<^sup>2 \<cdot> P \<cdot> R^x\<^sup>-\<^sup>2\<close>, the witnesses
  \<open>a'[i] = a[i] x + a[n'+i] x\<^sup>-\<^sup>1\<close> and \<open>b'[i] = b[i] x\<^sup>-\<^sup>1 + b[n'+i] x\<close>, and the lists
  \<open>Ls\<close>, \<open>Rs\<close> extended by \<open>L\<close>, \<open>R\<close>, where \<open>x\<close> is the first scalar of \<open>HashBP(L, R)\<close> and
  \<open>x\<^sup>-\<^sup>1\<close> its inverse modulo the order, and then sets the field \<open>n\<close> of the proof it gets
  back; for \<open>n = 1\<close> it returns the proof \<open>(a[0], b[0], g[0], h[0], P, u, Ls, Rs)\<close>; and for
  every power of two \<open>n = 2\<^sup>k\<close> (all challenges invertible) it returns a proof whose field
  \<open>n\<close> is the \<open>n\<close> of the outermost call, with \<open>k\<close> more points in \<open>Ls\<close> and in \<open>Rs\<close>.
\<close>

theorem BIP_halving:
  "(0 < n' \<and> length a = 2 * n' \<and> length b = 2 * n' \<and> length g = 2 * n' \<and> length h = 2 * n'
      \<and> HashBP e (halve_L e a b g h u n') (halve_R e a b g h u n') = Inr (x, x')
      \<and> ModInverse x (ORDER e) = Some xinv
    \<longrightarrow> BIP e a b g h u P (2 * int n') Ls Rs =
          Option.bind
            (BIP e (fold_a e a x xinv n') (fold_b e b x xinv n') (fold_g e g x xinv n')
               (fold_h e h x xinv n') u
               (fold_P e (halve_L e a b g h u n') (halve_R e a b g h u n') P x xinv) (int n')
               (Ls @ [halve_L e a b g h u n']) (Rs @ [halve_R e a b g h u n']))
            (\<lambda>r. Some (map_option (\<lambda>proof. proof\<lparr>pip_n := 2 * int n'\<rparr>) r)))
   \<and> (a \<noteq> [] \<and> b \<noteq> [] \<and> g \<noteq> [] \<and> h \<noteq> []
    \<longrightarrow> BIP e a b g h u P 1 Ls Rs =
          Some (Some \<lparr>pip_Ls = Ls, pip_Rs = Rs, pip_u = u, pip_P = P, pip_g = g ! 0, pip_h = h ! 0,
                      pip_a = a ! 0, pip_b = b ! 0, pip_n = 1\<rparr>))
   \<and> (\<forall>k. challenges_invertible e \<and> length a = 2 ^ k \<and> length b = 2 ^ k
           \<and> length g = 2 ^ k \<and> length h = 2 ^ k
    \<longrightarrow> (\<exists>proof. BIP e a b g h u P (2 ^ k) Ls Rs = Some (Some proof) \<and> pip_n proof = 2 ^ k
           \<and> length (pip_Ls proof) = length Ls + k \<and> length (pip_Rs proof) = length Rs + k))"
proof (intro conjI impI allI)
  assume "0 < n' \<and> length a = 2 * n' \<and> length b = 2 * n' \<and> length g = 2 * n' \<and> length h = 2 * n'
      \<and> HashBP e (halve_L e a b g h u n') (halve_R e a b g h u n') = Inr (x, x')
      \<and> ModInverse x (ORDER e) = Some xinv"
  then show "BIP e a b g h u P (2 * int n') Ls Rs =
          Option.bind
            (BIP e (fold_a e a x xinv n') (fold_b e b x xinv n') (fold_g e g x xinv n')
               (fold_h e h x xinv n') u
               (fold_P e (halve_L e a b g h u n') (halve_R e a b g h u n') P x xinv) (int n')
               (Ls @ [halve_L e a b g h u n']) (Rs @ [halve_R e a b g h u n']))
            (\<lambda>r. Some (map_option (\<lambda>proof. proof\<lparr>pip_n := 2 * int n'\<rparr>) r))"
    by (intro BIP_step) simp_all
next
  assume "a \<noteq> [] \<and> b \<noteq> [] \<and> g \<noteq> [] \<and> h \<noteq> []"
  then show "BIP e a b g h u P 1 Ls Rs =
          Some (Some \<lparr>pip_Ls = Ls, pip_Rs = Rs, pip_u = u, pip_P = P, pip_g = g ! 0, pip_h = h ! 0,
                      pip_a = a ! 0, pip_b = b ! 0, pip_n = 1\<rparr>)"
    by (intro BIP_base) simp_all
next
  fix k
  assume "challenges_invertible e \<and> length a = 2 ^ k \<and> length b = 2 ^ k
           \<and> length g = 2 ^ k \<and> length h = 2 ^ k"
  then show "\<exists>proof. BIP e a b g h u P (2 ^ k) Ls Rs = Some (Some proof) \<and> pip_n proof = 2 ^ k
           \<and> length (pip_Ls proof) = length Ls + k \<and> length (pip_Rs proof) = length Rs + k"
    using BIP_returns[of e a k b g h u P Ls Rs] by blast
qed

theorem BIP_halving_witness:
  "0 < (1::nat) \<and> length [1, 2 :: int] = 2 * 1 \<and> length [3, 4 :: int] = 2 * 1
     \<and> length [2, 6 :: int] = 2 * 1 \<and> length [1, 5 :: int] = 2 * 1
     \<and> HashBP toy (halve_L toy [1, 2] [3, 4] [2, 6] [1, 5] 3 1)
           (halve_R toy [1, 2] [3, 4] [2, 6] [1, 5] 3 1) = Inr (3, 5)
     \<and> ModInverse 3 (ORDER toy) = Some 5
   \<and> BIP toy [1, 2] [3, 4] [2, 6] [1, 5] 3 4 2 [] [] =
        Some (Some \<lparr>pip_Ls = [1], pip_Rs = [2], pip_u = 3, pip_P = 0, pip_g = 0, pip_h = 0,
                    pip_a = 6, pip_b = 6, pip_n = 2\<rparr>)
   \<and> [6 :: int] \<noteq> [] \<and> [0 :: int] \<noteq> []
   \<and> BIP toy [6] [6] [0] [0] 3 0 1 [1] [2] =
        Some (Some \<lparr>pip_Ls = [1], pip_Rs = [2], pip_u = 3, pip_P = 0, pip_g = 0, pip_h = 0,
                    pip_a = 6, pip_b = 6, pip_n = 1\<rparr>)
   \<and> challenges_invertible toy
   \<and> (\<exists>proof. BIP toy [1, 2] [3, 4] [2, 6] [1, 5] 3 4 (2 ^ 1) [] [] = Some (Some proof)
          \<and> pip_n proof = 2 ^ 1)"
proof -
  have h1: "0 < (1::nat) \<and> length [1, 2 :: int] = 2 * 1 \<and> length [3, 4 :: int] = 2 * 1
     \<and> length [2, 6 :: int] = 2 * 1 \<and> length [1, 5 :: int] = 2 * 1
     \<and> HashBP toy (halve_L toy [1, 2] [3, 4] [2, 6] [1, 5] 3 1)
           (halve_R toy [1, 2] [3, 4] [2, 6] [1, 5] 3 1) = Inr (3, 5)
     \<and> ModInverse 3 (ORDER toy) = Some 5"
    by code_simp
  have h2: "[6 :: int] \<noteq> [] \<and> [6 :: int] \<noteq> [] \<and> [0 :: int] \<noteq> [] \<and> [0 :: int] \<noteq> []"
    by simp
  have h3: "challenges_invertible toy \<and> length [1, 2 :: int] = 2 ^ 1 \<and> length [3, 4 :: int] = 2 ^ 1
      \<and> length [2, 6 :: int] = 2 ^ 1 \<and> length [1, 5 :: int] = 2 ^ 1"
    by (simp add: toy_challenges_invertible)
  note t = BIP_halving [where e = toy and n' = 1 and a = "[1, 2]" and b = "[3, 4]" and g = "[2, 6]"
      and h = "[1, 5]" and u = 3 and x = 3 and x' = 5 and xinv = 5 and P = 4 and Ls = "[]" and Rs = "[]"]
  note t' = BIP_halving [where e = toy and a = "[6]" and b = "[6]" and g = "[0]"
      and h = "[0]" and u = 3 and P = 0 and Ls = "[1]" and Rs = "[2]"]
  have step: "BIP toy [1, 2] [3, 4] [2, 6] [1, 5] 3 4 (2 * int 1) [] [] =
          Option.bind
            (BIP toy (fold_a toy [1, 2] 3 5 1) (fold_b toy [3, 4] 3 5 1) (fold_g toy [2, 6] 3 5 1)
               (fold_h toy [1, 5] 3 5 1) 3
               (fold_P toy (halve_L toy [1, 2] [3, 4] [2, 6] [1, 5] 3 1)
                  (halve_R toy [1, 2] [3, 4] [2, 6] [1, 5] 3 1) 4 3 5) (int 1)
               ([] @ [halve_L toy [1, 2] [3, 4] [2, 6] [1, 5] 3 1])
               ([] @ [halve_R toy [1, 2] [3, 4] [2, 6] [1, 5] 3 1]))
            (\<lambda>r. Some (map_option (\<lambda>proof. proof\<lparr>pip_n := 2 * int 1\<rparr>) r))"
    using t h1 by blast
  have rhs: "Option.bind
            (BIP toy (fold_a toy [1, 2] 3 5 1) (fold_b toy [3, 4] 3 5 1) (fold_g toy [2, 6] 3 5 1)
               (fold_h toy [1, 5] 3 5 1) 3
               (fold_P toy (halve_L toy [1, 2] [3, 4] [2, 6] [1, 5] 3 1)
                  (halve_R toy [1, 2] [3, 4] [2, 6] [1, 5] 3 1) 4 3 5) (int 1)
               ([] @ [halve_L toy [1, 2] [3, 4] [2, 6] [1, 5] 3 1])
               ([] @ [halve_R toy [1, 2] [3, 4] [2, 6] [1, 5] 3 1]))
            (\<lambda>r. Some (map_option (\<lambda>proof. proof\<lparr>pip_n := 2 * int 1\<rparr>) r))
         = Some (Some \<lparr>pip_Ls = [1], pip_Rs = [2], pip_u = 3, pip_P = 0, pip_g = 0, pip_h = 0,
                    pip_a = 6, pip_b = 6, pip_n = 2\<rparr>)"
    by code_simp
  have c1: "BIP toy [1, 2] [3, 4] [2, 6] [1, 5] 3 4 2 [] [] =
        Some (Some \<lparr>pip_Ls = [1], pip_Rs = [2], pip_u = 3, pip_P = 0, pip_g = 0, pip_h = 0,
                    pip_a = 6, pip_b = 6, pip_n = 2\<rparr>)"
    using step rhs by simp
  have c2: "BIP toy [6] [6] [0] [0] 3 0 1 [1] [2] =
        Some (Some \<lparr>pip_Ls = [1], pip_Rs = [2], pip_u = 3, pip_P = 0, pip_g = 0, pip_h = 0,
                    pip_a = 6, pip_b = 6, pip_n = 1\<rparr>)"
    using t' h2 by simp
  have c3: "\<exists>proof. BIP toy [1, 2] [3, 4] [2, 6] [1, 5] 3 4 (2 ^ 1) [] [] = Some (Some proof)
          \<and> pip_n proof = 2 ^ 1"
    using t h3 by blast
  show ?thesis
    using h1 h2 h3 c1 c2 c3 by blast
qed

subsection \<open>The results of bip.Prove\<close>


lemma bip_Prove_mismatch:
  assumes "length a \<noteq> length b" and "P < length hp"
    and "HashIP e (bip_g zkip) (bip_h zkip) (hp ! P) (bip_c zkip) (bip_n zkip) = Some (Inr x)"
  shows "bip_Prove e (hp, zkip) a b P =
     Some (Some ((hp[P := p256_Multiply e (hp ! P)
                     (p256_ScalarMult e (p256_ScalarMult e (bip_u zkip) x) (bip_c zkip))], zkip),
                 Inl errArray))"
  using assms by (simp add: bip_Prove_def deref_def must_def Let_def)



subsection \<open>Errors of bip.Prove\<close>


lemma toy_state_Prove: "bp_Prove toy toy_rnd ([], toy_params) 1 = Some (Some (toy_state, toy_proof, None))"
  by code_simp




text \<open>
  C10, as amended: \<^verbatim>\<open>bip.Prove\<close> multiplies the point of its argument \<open>P\<close> by \<open>(u^x)^c\<close> in
  place (\<open>x\<close> the scalar of \<^verbatim>\<open>HashIP\<close>, \<open>c\<close> the stored claim) before it compares the lengths
  of \<open>a\<close> and \<open>b\<close>, so when it returns the length error the caller's point has been
  overwritten. The receiver is unchanged on this path: \<^verbatim>\<open>zkip.P\<close> is assigned in the other
  branch only, and the point it holds changes only if it is the caller's \<open>P\<close> itself.
\<close>

theorem bip_Prove_error_path:
  assumes "length a \<noteq> length b" and "P < length hp"
    and "HashIP e (bip_g zkip) (bip_h zkip) (hp ! P) (bip_c zkip) (bip_n zkip) = Some (Inr x)"
  shows "\<exists>hp'. bip_Prove e (hp, zkip) a b P = Some (Some ((hp', zkip), Inl errArray))
           \<and> length hp' = length hp
           \<and> hp' ! P = p256_Multiply e (hp ! P)
                          (p256_ScalarMult e (p256_ScalarMult e (bip_u zkip) x) (bip_c zkip))
           \<and> (\<forall>p. p \<noteq> P \<longrightarrow> hp' ! p = hp ! p)"
  using assms by (simp add: bip_Prove_mismatch)

theorem bip_Prove_error_path_witness:
  "length [1 :: int] \<noteq> length ([] :: int list) \<and> (1::nat) < length [3, 5 :: int]
   \<and> HashIP toy (bip_g toy_zkip) (bip_h toy_zkip) ([3, 5] ! 1) (bip_c toy_zkip) (bip_n toy_zkip)
       = Some (Inr 2)
   \<and> (\<exists>hp'. bip_Prove toy ([3, 5], toy_zkip) [1] [] 1 = Some (Some ((hp', toy_zkip), Inl errArray))
         \<and> hp' ! 1 = 4 \<and> hp' ! 0 = 3)"
proof -
  have h1: "length [1 :: int] \<noteq> length ([] :: int list)" by simp
  have h2: "(1::nat) < length [3, 5 :: int]" by simp
  have h3: "HashIP toy (bip_g toy_zkip) (bip_h toy_zkip) ([3, 5] ! 1) (bip_c toy_zkip) (bip_n toy_zkip)
       = Some (Inr 2)"
    by code_simp
  have v: "p256_Multiply toy ([3, 5] ! 1)
             (p256_ScalarMult toy (p256_ScalarMult toy (bip_u toy_zkip) 2) (bip_c toy_zkip)) = 4"
    by code_simp
  have z: "[3, 5 :: int] ! 0 = 3" by simp
  obtain hp' where hp': "bip_Prove toy ([3, 5], toy_zkip) [1] [] 1 = Some (Some ((hp', toy_zkip), Inl errArray))"
      "hp' ! 1 = p256_Multiply toy ([3, 5] ! 1)
             (p256_ScalarMult toy (p256_ScalarMult toy (bip_u toy_zkip) 2) (bip_c toy_zkip))"
      "\<forall>p. p \<noteq> 1 \<longrightarrow> hp' ! p = [3, 5] ! p"
    using bip_Prove_error_path [OF h1 h2 h3] by blast
  have "hp' ! 1 = 4" using hp'(2) v by simp
  moreover have "hp' ! 0 = 3" using hp'(3) z by simp
  ultimately show ?thesis using h1 h2 h3 hp'(1) by blast
qed

text \<open>
  A receiver whose \<^verbatim>\<open>zkip.P\<close> is cell 0 of the store, called with \<open>P\<close> at cell 1 and vectors
  of lengths 1 and 0: the error is returned, cell 1 is overwritten, and \<^verbatim>\<open>zkip\<close>, its
  pointer \<^verbatim>\<open>zkip.P\<close> and the point of cell 0 are as before.
\<close>

theorem bip_Prove_error_zkip_counterexample:
  "bip_Prove toy ([3, 5], toy_zkip) [1] [] 1 = Some (Some (([3, 4], toy_zkip), Inl errArray))
   \<and> bip_P toy_zkip = Some 0"
  by code_simp

subsection \<open>The result of bp.Verify\<close>











subsection \<open>Verifying twice\<close>

text \<open>
  C3: \<^verbatim>\<open>bip.Verify\<close> takes \<^verbatim>\<open>Pprime := zkip.P\<close> and multiplies into it, so a call of
  \<^verbatim>\<open>bp.Verify\<close> overwrites the point \<^verbatim>\<open>zkip.P\<close> holds. On the small instance, with the
  state and the proof \<^verbatim>\<open>Prove(1)\<close> leaves, the first call returns true and leaves the point
  at infinity in the cell; the second call on the same proof returns false.
\<close>

theorem bp_Verify_twice:
  "bp_Prove toy toy_rnd ([], toy_params) 1 = Some (Some (toy_state, toy_proof, None))
   \<and> toy_state = ([3], snd toy_state)
   \<and> bp_Verify toy ([3], snd toy_state) toy_proof = Some (([0], snd toy_state), True, None)
   \<and> bp_Verify toy ([0], snd toy_state) toy_proof = Some (([3], snd toy_state), False, None)"
proof -
  have "toy_state = ([3], snd toy_state)
     \<and> bp_Verify toy ([3], snd toy_state) toy_proof = Some (([0], snd toy_state), True, None)
     \<and> bp_Verify toy ([0], snd toy_state) toy_proof = Some (([3], snd toy_state), False, None)"
    by code_simp
  with toy_state_Prove show ?thesis
    by blast
qed

end
